theory Spec2Isabelle
  imports Complex_Main "HOL-Library.Char_ord" "HOL-Library.List_Lexorder" "HOL-Library.Multiset"
begin

section \<open>Data model of the demonstration aggregator\<close>

text \<open>
  The embedding follows \<^verbatim>\<open>robosuite/scripts/collect_human_demonstrations.py\<close>.
  Simulation states, actions and pose samples are numeric vectors; the aggregator never
  looks inside them, it only concatenates and counts them.
\<close>

type_synonym sim_state = "real list"
type_synonym action = "real list"
type_synonym pose = "real list"

text \<open>One entry of \<^verbatim>\<open>dic["action_infos"]\<close>: a dictionary read through its key \<^verbatim>\<open>"actions"\<close>.\<close>

record action_info =
  ai_actions :: action

text \<open>
  One \<^verbatim>\<open>state_*.npz\<close> file as \<^verbatim>\<open>np.load\<close> returns it (the variable \<^verbatim>\<open>dic\<close>); each
  field is the key of the same name.
\<close>

record chunk =
  dic_env :: string
  dic_states :: "sim_state list"
  dic_action_infos :: "action_info list"
  dic_centric_obj_pose :: "pose list"
  dic_subtask_begin_index :: "int list"
  dic_successful :: bool

text \<open>
  One entry of \<^verbatim>\<open>os.listdir(directory)\<close>: the files that match \<^verbatim>\<open>state_*.npz\<close>, as pairs
  of file name and content in the order \<^verbatim>\<open>glob\<close> yields them, and the text of
  \<^verbatim>\<open>model.xml\<close> (\<open>None\<close> when the file is absent).
\<close>

record ep_directory =
  state_files :: "(string \<times> chunk) list"
  model_xml :: "string option"

text \<open>The output container: the children of the group \<^verbatim>\<open>data\<close> and its attributes.\<close>

record h5group =
  grp_name :: string
  attr_model_file :: "string option"
  ds_states :: "sim_state list option"
  ds_actions :: "action list option"
  ds_centric_obj_pose :: "pose list option"
  ds_subtask_begin_index :: "int list option"

record h5data =
  children :: "h5group list"
  attr_date :: "string option"
  attr_time :: "string option"
  attr_repository_version :: "string option"
  attr_env :: "string option"
  attr_env_info :: "string option"

record datetime =
  year :: nat
  month :: nat
  day :: nat
  hour :: nat
  minute :: nat
  second :: nat

datatype error = AssertionError | FileNotFoundError | TypeError | ValueError | IndexError

text \<open>The local variables of \<^verbatim>\<open>gather_demonstrations_as_hdf5\<close>, threaded through its loops.\<close>

record locals =
  grp :: h5data
  num_eps :: nat
  env_name :: "string option"
  states :: "sim_state list"
  actions :: "action list"
  centric_obj_pose :: "pose list"
  subtask_begin_index :: "int list"
  success :: bool

section \<open>Formatting\<close>

text \<open>\<^verbatim>\<open>"{}".format(n)\<close> for a non-negative integer: its decimal digits.\<close>

definition digit :: "nat \<Rightarrow> char" where
  "digit d = ''0123456789'' ! d"

fun str_nat :: "nat \<Rightarrow> string" where
  "str_nat n = (if n < 10 then [digit n] else str_nat (n div 10) @ [digit (n mod 10)])"

declare str_nat.simps [simp del]

section \<open>The aggregator\<close>

definition empty_data :: h5data where
  "empty_data = \<lparr>children = [], attr_date = None, attr_time = None,
     attr_repository_version = None, attr_env = None, attr_env_info = None\<rparr>"

definition new_group :: "string \<Rightarrow> h5group" where
  "new_group n = \<lparr>grp_name = n, attr_model_file = None, ds_states = None, ds_actions = None,
     ds_centric_obj_pose = None, ds_subtask_begin_index = None\<rparr>"

text \<open>Lines 189 to 197: the body of the loop over the chunk files of one episode.\<close>

definition load_chunk :: "locals \<Rightarrow> chunk \<Rightarrow> locals" where
  "load_chunk l dic = l\<lparr>
     env_name := Some (dic_env dic),
     states := states l @ dic_states dic,
     actions := actions l @ map ai_actions (dic_action_infos dic),
     centric_obj_pose := centric_obj_pose l @ dic_centric_obj_pose dic,
     subtask_begin_index := subtask_begin_index l @ dic_subtask_begin_index dic,
     success := (success l \<or> dic_successful dic)\<rparr>"

text \<open>
  \<^verbatim>\<open>sorted(glob(state_paths))\<close>: the chunk files in the order of their names. The paths
  share the directory, so they are ordered as the file names are: character by character,
  by character code, a proper prefix first.
\<close>

definition sorted_glob :: "ep_directory \<Rightarrow> chunk list" where
  "sorted_glob ep = map snd (sort_key fst (state_files ep))"

text \<open>Lines 182 to 197: the locals are reset, then every chunk file is read in sorted order.\<close>

definition read_episode :: "ep_directory \<Rightarrow> locals \<Rightarrow> locals" where
  "read_episode ep l =
     foldl load_chunk
       (l\<lparr>states := [], actions := [], centric_obj_pose := [], subtask_begin_index := [],
          success := True\<rparr>)
       (sorted_glob ep)"

text \<open>
  \<^verbatim>\<open>np.array\<close> on a list of vectors, as lines 221 to 223 call it: the vectors become the
  rows of one array when they all have the same length; rows of unequal lengths are
  refused with \<^verbatim>\<open>ValueError\<close>. An empty list gives an empty array. The subtask indices of
  line 224 are plain numbers and always form an array. The numbers come out of the chunk
  files in a fixed width; the array keeps their values, so a number is modelled by its
  value and its width is left out.
\<close>

definition rectangular :: "real list list \<Rightarrow> bool" where
  "rectangular xs = (case xs of [] \<Rightarrow> True | x # _ \<Rightarrow> list_all (\<lambda>y. length y = length x) xs)"

definition np_array :: "real list list \<Rightarrow> error + real list list" where
  "np_array xs = (if rectangular xs then Inr xs else Inl ValueError)"

text \<open>
  Lines 221 to 224: the four datasets are created one after the other in the group of the
  episode; an exception leaves in the group the datasets created before it.
\<close>

definition create_datasets :: "locals \<Rightarrow> h5group \<Rightarrow> (error \<times> h5group) + h5group" where
  "create_datasets l d =
     (case np_array (states l) of
        Inl e \<Rightarrow> Inl (e, d)
      | Inr s \<Rightarrow>
          (case np_array (actions l) of
             Inl e \<Rightarrow> Inl (e, d\<lparr>ds_states := Some s\<rparr>)
           | Inr a \<Rightarrow>
               (case np_array (centric_obj_pose l) of
                  Inl e \<Rightarrow> Inl (e, d\<lparr>ds_states := Some s, ds_actions := Some a\<rparr>)
                | Inr p \<Rightarrow>
                    Inr (d\<lparr>ds_states := Some s, ds_actions := Some a,
                           ds_centric_obj_pose := Some p,
                           ds_subtask_begin_index := Some (subtask_begin_index l)\<rparr>))))"

text \<open>
  Lines 199 to 226, after the chunks are read. An exception leaves the loop with the locals
  as they are at that point: the group of the episode exists once \<^verbatim>\<open>create_group\<close> has run,
  and holds what has been written into it.
\<close>

definition store_episode :: "ep_directory \<Rightarrow> locals \<Rightarrow> (error \<times> locals) + locals" where
  "store_episode ep l =
     (if length (states l) = 0 then Inr l
      else if success l then
        (let l1 = l\<lparr>states := butlast (states l)\<rparr> in
         if length (states l1) \<noteq> length (actions l1) then Inl (AssertionError, l1)
         else
           let g = grp l1;
               n = ''demo_'' @ str_nat (num_eps l1);
               l2 = l1\<lparr>grp := g\<lparr>children := children g @ [new_group n]\<rparr>,
                       num_eps := num_eps l1 + 1\<rparr>
           in case model_xml ep of
                None \<Rightarrow> Inl (FileNotFoundError, l2)
              | Some xml_str \<Rightarrow>
                  (case create_datasets l2 ((new_group n)\<lparr>attr_model_file := Some xml_str\<rparr>) of
                     Inl (e, d) \<Rightarrow> Inl (e, l2\<lparr>grp := g\<lparr>children := children g @ [d]\<rparr>\<rparr>)
                   | Inr d \<Rightarrow> Inr (l2\<lparr>grp := g\<lparr>children := children g @ [d]\<rparr>\<rparr>)))
      else Inr l)"

definition episode_body :: "ep_directory \<Rightarrow> locals \<Rightarrow> (error \<times> locals) + locals" where
  "episode_body ep l = store_episode ep (read_episode ep l)"

text \<open>Line 180: the loop over the directory listing, left at the first exception.\<close>

fun listdir_loop :: "ep_directory list \<Rightarrow> locals \<Rightarrow> (error \<times> locals) + locals" where
  "listdir_loop [] l = Inr l"
| "listdir_loop (ep # eps) l =
     (case episode_body ep l of
        Inl e \<Rightarrow> Inl e
      | Inr l' \<Rightarrow> listdir_loop eps l')"

definition initial_locals :: locals where
  "initial_locals = \<lparr>grp = empty_data, num_eps = 0, env_name = None, states = [], actions = [],
     centric_obj_pose = [], subtask_begin_index = [], success = True\<rparr>"

text \<open>
  The whole function. Its inputs are the directory listing, the caller's \<^verbatim>\<open>env_info\<close>,
  the clock reading \<^verbatim>\<open>datetime.datetime.now()\<close> and \<^verbatim>\<open>suite.__version__\<close>. The result is
  the content of the group \<^verbatim>\<open>data\<close> of the file opened with mode \<^verbatim>\<open>"w"\<close>, which starts
  empty whatever the path held before; \<open>Inl\<close> carries the exception and the content
  written up to it. Storing \<^verbatim>\<open>None\<close> as the attribute \<^verbatim>\<open>env\<close> is refused by the container
  library with a type error. The messages printed at lines 204 and 226 are left out.

  Line 216 binds the name \<^verbatim>\<open>f\<close> again, to the file \<^verbatim>\<open>model.xml\<close>, so that line 236 closes
  that file once an episode has been kept; the container is written through \<^verbatim>\<open>grp\<close> all
  along, and \<^verbatim>\<open>grp\<close> is what the model follows.
\<close>

definition gather_demonstrations_as_hdf5 ::
  "ep_directory list \<Rightarrow> string \<Rightarrow> datetime \<Rightarrow> string \<Rightarrow> (error \<times> h5data) + h5data" where
  "gather_demonstrations_as_hdf5 directory env_info now version =
     (case listdir_loop directory initial_locals of
        Inl (e, l) \<Rightarrow> Inl (e, grp l)
      | Inr l \<Rightarrow>
          (let g = (grp l)\<lparr>
                 attr_date := Some (str_nat (month now) @ ''-'' @ str_nat (day now) @ ''-'' @ str_nat (year now)),
                 attr_time := Some (str_nat (hour now) @ '':'' @ str_nat (minute now) @ '':'' @ str_nat (second now)),
                 attr_repository_version := Some version\<rparr>
           in case env_name l of
                None \<Rightarrow> Inl (TypeError, g)
              | Some n \<Rightarrow> Inr (g\<lparr>attr_env := Some n, attr_env_info := Some env_info\<rparr>)))"

text \<open>The container content of a run, whether it ended in an exception or not.\<close>

definition content :: "(error \<times> h5data) + h5data \<Rightarrow> h5data" where
  "content r = (case r of Inl (e, g) \<Rightarrow> g | Inr g \<Rightarrow> g)"

text \<open>A container content with the two attributes taken from the clock blanked.\<close>

definition without_date_time :: "h5data \<Rightarrow> h5data" where
  "without_date_time g = g\<lparr>attr_date := None, attr_time := None\<rparr>"

text \<open>A group with its name blanked: what an episode contributes, whatever its number.\<close>

definition unnamed :: "h5group \<Rightarrow> h5group" where
  "unnamed d = d\<lparr>grp_name := []\<rparr>"

text \<open>
  Two readings of one episode directory: the same chunk files, each name once, in whatever
  order \<^verbatim>\<open>glob\<close> yields them, and the same \<^verbatim>\<open>model.xml\<close>.
\<close>

definition same_files :: "ep_directory \<Rightarrow> ep_directory \<Rightarrow> bool" where
  "same_files ep ep' =
     (mset (state_files ep) = mset (state_files ep') \<and> distinct (map fst (state_files ep)) \<and>
      model_xml ep = model_xml ep')"

text \<open>
  Whether the loop body completes on an episode directory, and the groups it then adds,
  read off a run of the body from the initial locals.
\<close>

definition passes :: "ep_directory \<Rightarrow> bool" where
  "passes ep = (case episode_body ep initial_locals of Inl x \<Rightarrow> False | Inr l' \<Rightarrow> True)"

definition emitted :: "ep_directory \<Rightarrow> h5group list" where
  "emitted ep =
     (case episode_body ep initial_locals of
        Inl x \<Rightarrow> []
      | Inr l' \<Rightarrow> map unnamed (children (grp l')))"

text \<open>The groups written so far are named \<^verbatim>\<open>demo_0\<close>, \<^verbatim>\<open>demo_1\<close>, ... in this order.\<close>

definition numbered :: "locals \<Rightarrow> bool" where
  "numbered l =
     (map grp_name (children (grp l)) = map (\<lambda>i. ''demo_'' @ str_nat i) [0..<num_eps l])"

section \<open>The foreground loop of the episode controller\<close>

text \<open>
  \<^verbatim>\<open>collect_human_trajectory\<close> runs against collaborators that are not part of the script:
  the input device, the renderer, the success predicate of the environment and the tick
  counter \<^verbatim>\<open>current_timestamps\<close>, which the background stepper advances. One \<open>tick\<close> holds
  what these give the foreground loop during one iteration. A call either returns or is cut
  short by the operator's \<^verbatim>\<open>KeyboardInterrupt\<close>.
\<close>

datatype 'a call = Returns 'a | KeyboardInterrupt

record tick =
  input2action :: "action option call"
  render :: "unit call"
  check_success :: "bool call"
  current_timestamps :: nat

text \<open>What the foreground thread does, in program order.\<close>

datatype event =
    EnvReset
  | EnvRender
  | ThreadStart
  | StartControl
  | SetAction action
  | CheckSuccess
  | HoldCount int
  | ResetTimestamps
  | StopEventSet
  | ThreadJoin
  | EnvClose

text \<open>The statement through which the loop is left; \<open>Running\<close> when the ticks given end first.\<close>

datatype exit_path =
    BreakReset
  | BreakSuccess
  | BreakTimeout
  | Interrupted
  | Uncaught error
  | Running

text \<open>Line 77, and the frequency and step budget of lines 35 and 86.\<close>

definition deadzone :: "real list" where
  "deadzone = [0, 0, 0, 0.1, 0.1, 0.1]"

definition freq :: nat where
  "freq = 50"

definition max_steps :: nat where
  "max_steps = 10 * freq"

text \<open>
  Lines 103 to 106. \<^verbatim>\<open>action[:6]\<close> is a view, so the assignment through the mask changes
  \<^verbatim>\<open>action\<close> itself. An action of fewer than 6 components does not pass: the comparison
  with the 6 thresholds fails to broadcast, or, for a single component, the mask of 6
  entries does not fit the view.
\<close>

definition is_dead :: "real \<Rightarrow> real \<Rightarrow> bool" where
  "is_dead d x = (- d < x \<and> x < d)"

definition apply_deadzone :: "action \<Rightarrow> error + action" where
  "apply_deadzone a =
     (if length a = 1 then Inl IndexError
      else if length a < 6 then Inl ValueError
      else Inr (map2 (\<lambda>d x. if is_dead d x then 0 else x) deadzone (take 6 a) @ drop 6 a))"

text \<open>Lines 121 to 127: the success latch.\<close>

definition latch :: "int \<Rightarrow> bool \<Rightarrow> int" where
  "latch task_completion_hold_count s =
     (if s then
        (if task_completion_hold_count > 0 then task_completion_hold_count - 1 else 10)
      else - 1)"

text \<open>
  Lines 95 to 131: one iteration of the loop, from the hold count at its start. The result
  is the way the loop is left, or the hold count for the next iteration, with the events of
  the iteration.
\<close>

definition iteration :: "int \<Rightarrow> tick \<Rightarrow> (exit_path + int) \<times> event list" where
  "iteration task_completion_hold_count t =
     (case input2action t of
        KeyboardInterrupt \<Rightarrow> (Inl Interrupted, [])
      | Returns None \<Rightarrow> (Inl BreakReset, [])
      | Returns (Some a) \<Rightarrow>
          (case apply_deadzone a of
             Inl e \<Rightarrow> (Inl (Uncaught e), [])
           | Inr a' \<Rightarrow>
               (case render t of
                  KeyboardInterrupt \<Rightarrow> (Inl Interrupted, [SetAction a'])
                | Returns _ \<Rightarrow>
                    if task_completion_hold_count = 0
                    then (Inl BreakSuccess, [SetAction a', EnvRender])
                    else
                      (case check_success t of
                         KeyboardInterrupt \<Rightarrow> (Inl Interrupted, [SetAction a', EnvRender])
                       | Returns s \<Rightarrow>
                           (let c = latch task_completion_hold_count s in
                            if current_timestamps t \<ge> max_steps
                            then (Inl BreakTimeout,
                                  [SetAction a', EnvRender, CheckSuccess, HoldCount c, ResetTimestamps])
                            else (Inr c, [SetAction a', EnvRender, CheckSuccess, HoldCount c]))))))"

text \<open>Line 94: the loop.\<close>

fun control_loop :: "int \<Rightarrow> tick list \<Rightarrow> exit_path \<times> event list" where
  "control_loop c [] = (Running, [])"
| "control_loop c (t # ts) =
     (case iteration c t of
        (Inl x, evs) \<Rightarrow> (x, evs)
      | (Inr c', evs) \<Rightarrow> (case control_loop c' ts of (x, evs') \<Rightarrow> (x, evs @ evs')))"

text \<open>
  Lines 132 to 140: what follows the loop. The handler of \<^verbatim>\<open>KeyboardInterrupt\<close> stops and
  joins the stepper and raises again; every \<^verbatim>\<open>break\<close> reaches the cleanup after the
  \<^verbatim>\<open>try\<close> statement; another exception passes through both.
\<close>

fun after_loop :: "exit_path \<Rightarrow> event list" where
  "after_loop Interrupted = [StopEventSet, ThreadJoin]"
| "after_loop (Uncaught e) = []"
| "after_loop Running = []"
| "after_loop x = [StopEventSet, ThreadJoin, EnvClose]"

text \<open>The whole function, lines 77 to 140; the hold count starts at \<open>- 1\<close>.\<close>

definition collect_human_trajectory :: "tick list \<Rightarrow> exit_path \<times> event list" where
  "collect_human_trajectory ticks =
     (case control_loop (- 1) ticks of
        (x, evs) \<Rightarrow> (x, [EnvReset, EnvRender, ThreadStart, StartControl] @ evs @ after_loop x))"

text \<open>The values the hold count is given, in order.\<close>

fun hold_counts :: "event list \<Rightarrow> int list" where
  "hold_counts [] = []"
| "hold_counts (HoldCount c # evs) = c # hold_counts evs"
| "hold_counts (e # evs) = hold_counts evs"

text \<open>The number of evaluations of the success predicate.\<close>

fun checks :: "event list \<Rightarrow> nat" where
  "checks [] = 0"
| "checks (CheckSuccess # evs) = Suc (checks evs)"
| "checks (e # evs) = checks evs"

text \<open>
  A tick on which the loop reaches line 117: the device gives an action of at least 6
  components and the renderer returns. On a success tick the predicate then holds, on a
  failure tick it does not, and the tick counter read at line 129 is below the budget.
\<close>

definition acting_tick :: "tick \<Rightarrow> bool" where
  "acting_tick t =
     ((case input2action t of Returns (Some a) \<Rightarrow> 6 \<le> length a | _ \<Rightarrow> False) \<and>
      render t = Returns ())"

definition success_tick :: "tick \<Rightarrow> bool" where
  "success_tick t =
     (acting_tick t \<and> check_success t = Returns True \<and> current_timestamps t < max_steps)"

definition failure_tick :: "tick \<Rightarrow> bool" where
  "failure_tick t =
     (acting_tick t \<and> check_success t = Returns False \<and> current_timestamps t < max_steps)"

section \<open>The controller and the stepper as two threads\<close>

text \<open>
  The shared memory of the two threads is the attribute \<^verbatim>\<open>self.action\<close>, the global
  \<^verbatim>\<open>current_timestamps\<close>, the lock and the stop event. Each thread moves through program
  points; one move is one access to the shared memory or one line that touches none. A
  schedule names the thread that moves next, so the runs over all schedules are the
  interleavings. A thread that waits (for the lock, or in \<^verbatim>\<open>join\<close>) stays where it is when
  it is scheduled.
\<close>

datatype thread = Controller | Stepper

datatype access = ReadAction | WriteAction | ReadCounter | WriteCounter

text \<open>
  Program points of \<^verbatim>\<open>collect_human_trajectory\<close>: line 99, \<^verbatim>\<open>set_action\<close> (lines 43 and 44
  and the end of the \<^verbatim>\<open>with\<close> block), lines 114 to 127, line 129, line 130, the cleanup of
  lines 138 to 140 and the handler of lines 133 to 135.
\<close>

datatype cpc =
    C_input
  | C_lock action
  | C_write action
  | C_unlock
  | C_latch
  | C_read
  | C_reset
  | C_stop
  | C_join
  | C_close
  | C_returned
  | C_stop_handler
  | C_join_handler
  | C_raised
  | C_uncaught

text \<open>
  Program points of \<^verbatim>\<open>run_step\<close>: line 49, line 51, line 52, line 53, the two halves of
  line 54 (the value read is kept until it is stored back), the end of the \<^verbatim>\<open>with\<close> block,
  lines 56 to 61, and the end of the thread.
\<close>

datatype spc =
    S_test
  | S_lock
  | S_check
  | S_step
  | S_load
  | S_store nat
  | S_unlock
  | S_sleep
  | S_done

text \<open>
  The last three fields record history: the arguments of \<^verbatim>\<open>env.step\<close>, the actions written
  by \<^verbatim>\<open>set_action\<close>, and every access to the shared action and counter with the thread that
  made it and whether that thread held the lock.
\<close>

record config =
  self_action :: "action option"
  g_current_timestamps :: nat
  lock :: "thread option"
  stop_event :: bool
  cpc :: cpc
  spc :: spc
  stepped :: "action list"
  pushed :: "action list"
  log :: "(thread \<times> access \<times> bool) list"

definition note_access :: "thread \<Rightarrow> access \<Rightarrow> config \<Rightarrow> config" where
  "note_access th acc c = c\<lparr>log := log c @ [(th, acc, lock c = Some th)]\<rparr>"

text \<open>
  One move of the stepper. \<^verbatim>\<open>env.step(None)\<close> would raise inside the \<^verbatim>\<open>with\<close> block, which
  releases the lock and ends the thread.
\<close>

definition stepper_move :: "config \<Rightarrow> config" where
  "stepper_move c =
     (case spc c of
        S_test \<Rightarrow> c\<lparr>spc := (if stop_event c then S_done else S_lock)\<rparr>
      | S_lock \<Rightarrow> (if lock c = None then c\<lparr>lock := Some Stepper, spc := S_check\<rparr> else c)
      | S_check \<Rightarrow>
          (note_access Stepper ReadAction c)
            \<lparr>spc := (if self_action c = None then S_unlock else S_step)\<rparr>
      | S_step \<Rightarrow>
          (case self_action c of
             None \<Rightarrow> (note_access Stepper ReadAction c)\<lparr>lock := None, spc := S_done\<rparr>
           | Some a \<Rightarrow>
               (note_access Stepper ReadAction c)\<lparr>stepped := stepped c @ [a], spc := S_load\<rparr>)
      | S_load \<Rightarrow> (note_access Stepper ReadCounter c)\<lparr>spc := S_store (g_current_timestamps c)\<rparr>
      | S_store n \<Rightarrow>
          (note_access Stepper WriteCounter c)\<lparr>g_current_timestamps := n + 1, spc := S_unlock\<rparr>
      | S_unlock \<Rightarrow> c\<lparr>lock := None, spc := S_sleep\<rparr>
      | S_sleep \<Rightarrow> c\<lparr>spc := S_test\<rparr>
      | S_done \<Rightarrow> c)"

text \<open>
  One move of the controller. \<open>dev\<close> is what \<^verbatim>\<open>input2action\<close> gives at line 99; \<open>fin\<close> is
  the outcome of lines 114 to 127, which touch no shared memory: \<open>Returns True\<close> when the
  loop is left at line 118.
\<close>

definition controller_move :: "action option call \<Rightarrow> bool call \<Rightarrow> config \<Rightarrow> config" where
  "controller_move dev fin c =
     (case cpc c of
        C_input \<Rightarrow>
          (case dev of
             KeyboardInterrupt \<Rightarrow> c\<lparr>cpc := C_stop_handler\<rparr>
           | Returns None \<Rightarrow> c\<lparr>cpc := C_stop\<rparr>
           | Returns (Some a) \<Rightarrow>
               (case apply_deadzone a of
                  Inl e \<Rightarrow> c\<lparr>cpc := C_uncaught\<rparr>
                | Inr a' \<Rightarrow> c\<lparr>cpc := C_lock a'\<rparr>))
      | C_lock a \<Rightarrow> (if lock c = None then c\<lparr>lock := Some Controller, cpc := C_write a\<rparr> else c)
      | C_write a \<Rightarrow>
          (note_access Controller WriteAction c)
            \<lparr>self_action := Some a, pushed := pushed c @ [a], cpc := C_unlock\<rparr>
      | C_unlock \<Rightarrow> c\<lparr>lock := None, cpc := C_latch\<rparr>
      | C_latch \<Rightarrow>
          (case fin of
             KeyboardInterrupt \<Rightarrow> c\<lparr>cpc := C_stop_handler\<rparr>
           | Returns True \<Rightarrow> c\<lparr>cpc := C_stop\<rparr>
           | Returns False \<Rightarrow> c\<lparr>cpc := C_read\<rparr>)
      | C_read \<Rightarrow>
          (note_access Controller ReadCounter c)
            \<lparr>cpc := (if g_current_timestamps c \<ge> max_steps then C_reset else C_input)\<rparr>
      | C_reset \<Rightarrow> (note_access Controller WriteCounter c)\<lparr>g_current_timestamps := 0, cpc := C_stop\<rparr>
      | C_stop \<Rightarrow> c\<lparr>stop_event := True, cpc := C_join\<rparr>
      | C_join \<Rightarrow> (if spc c = S_done then c\<lparr>cpc := C_close\<rparr> else c)
      | C_close \<Rightarrow> c\<lparr>cpc := C_returned\<rparr>
      | C_returned \<Rightarrow> c
      | C_stop_handler \<Rightarrow> c\<lparr>stop_event := True, cpc := C_join_handler\<rparr>
      | C_join_handler \<Rightarrow> (if spc c = S_done then c\<lparr>cpc := C_raised\<rparr> else c)
      | C_raised \<Rightarrow> c
      | C_uncaught \<Rightarrow> c)"

datatype move = StepperMove | ControllerMove "action option call" "bool call"

fun make_move :: "config \<Rightarrow> move \<Rightarrow> config" where
  "make_move c StepperMove = stepper_move c"
| "make_move c (ControllerMove dev fin) = controller_move dev fin c"

text \<open>
  The state when the stepper thread has been started (line 85): no action yet, the counter
  at 0 as line 319 leaves it, the lock free.
\<close>

definition initial_config :: config where
  "initial_config = \<lparr>self_action = None, g_current_timestamps = 0, lock = None,
     stop_event = False, cpc = C_input, spc = S_test, stepped = [], pushed = [], log = []\<rparr>"

definition run :: "move list \<Rightarrow> config" where
  "run schedule = foldl make_move initial_config schedule"

text \<open>The stepper has applied \<^verbatim>\<open>env.step\<close> and not yet stored the advanced counter.\<close>

fun pending :: "spc \<Rightarrow> nat" where
  "pending S_load = 1"
| "pending (S_store n) = 1"
| "pending p = 0"

text \<open>The program points inside the two \<^verbatim>\<open>with self.lock\<close> blocks.\<close>

fun in_stepper_block :: "spc \<Rightarrow> bool" where
  "in_stepper_block S_check = True"
| "in_stepper_block S_step = True"
| "in_stepper_block S_load = True"
| "in_stepper_block (S_store n) = True"
| "in_stepper_block S_unlock = True"
| "in_stepper_block p = False"

fun in_controller_block :: "cpc \<Rightarrow> bool" where
  "in_controller_block (C_write a) = True"
| "in_controller_block C_unlock = True"
| "in_controller_block p = False"

text \<open>
  The discipline of the accesses: an access is made under the lock exactly when it is an
  access to the action or an access of the stepper. What is left, the accesses of the
  controller to the counter, is made without the lock.
\<close>

definition access_discipline :: "thread \<times> access \<times> bool \<Rightarrow> bool" where
  "access_discipline e =
     (case e of (th, acc, held) \<Rightarrow>
        held = (acc = ReadAction \<or> acc = WriteAction \<or> th = Stepper))"

text \<open>The controller has run line 130.\<close>

definition counter_reset :: "config \<Rightarrow> bool" where
  "counter_reset c =
     ((Controller, WriteCounter, False) \<in> set (log c) \<or>
      (Controller, WriteCounter, True) \<in> set (log c))"

text \<open>Invariants of the two threads, kept by every move.\<close>

definition lock_inv :: "config \<Rightarrow> bool" where
  "lock_inv c =
     (lock c = (if in_stepper_block (spc c) then Some Stepper
                else if in_controller_block (cpc c) then Some Controller else None) \<and>
      \<not> (in_stepper_block (spc c) \<and> in_controller_block (cpc c)) \<and>
      list_all access_discipline (log c))"

definition prov_inv :: "config \<Rightarrow> bool" where
  "prov_inv c =
     (set (stepped c) \<subseteq> set (pushed c) \<and>
      (case self_action c of None \<Rightarrow> True | Some a \<Rightarrow> a \<in> set (pushed c)))"

definition count_inv :: "config \<Rightarrow> bool" where
  "count_inv c =
     (counter_reset c \<or>
      (g_current_timestamps c + pending (spc c) = length (stepped c) \<and>
       (case spc c of S_store n \<Rightarrow> n = g_current_timestamps c | _ \<Rightarrow> True)))"

definition done_inv :: "config \<Rightarrow> bool" where
  "done_inv c = (cpc c \<in> {C_close, C_returned, C_raised} \<longrightarrow> spc c = S_done)"

definition all_inv :: "config \<Rightarrow> bool" where
  "all_inv c = (lock_inv c \<and> prov_inv c \<and> count_inv c \<and> done_inv c)"

section \<open>Example inputs\<close>

definition example_now :: datetime where
  "example_now = \<lparr>year = 2024, month = 3, day = 7, hour = 9, minute = 5, second = 0\<rparr>"

text \<open>A chunk of two states and one action whose success flag is false.\<close>

definition failed_chunk :: chunk where
  "failed_chunk = \<lparr>dic_env = ''Lift'', dic_states = [[0], [1]],
     dic_action_infos = [\<lparr>ai_actions = [0.5]\<rparr>], dic_centric_obj_pose = [[2]],
     dic_subtask_begin_index = [0], dic_successful = False\<rparr>"

definition failed_episode :: ep_directory where
  "failed_episode =
     \<lparr>state_files = [(''state_1.npz'', failed_chunk)], model_xml = Some ''<mujoco/>''\<rparr>"

text \<open>Chunks of the environments \<^verbatim>\<open>Lift\<close> and \<^verbatim>\<open>Stack\<close>, flagged successful.\<close>

definition lift_chunk :: chunk where
  "lift_chunk = \<lparr>dic_env = ''Lift'', dic_states = [[0], [1]],
     dic_action_infos = [\<lparr>ai_actions = [0.5]\<rparr>], dic_centric_obj_pose = [[2]],
     dic_subtask_begin_index = [0], dic_successful = True\<rparr>"

definition stack_chunk :: chunk where
  "stack_chunk = \<lparr>dic_env = ''Stack'', dic_states = [[3]],
     dic_action_infos = [\<lparr>ai_actions = [0.25]\<rparr>], dic_centric_obj_pose = [],
     dic_subtask_begin_index = [], dic_successful = True\<rparr>"

definition lift_episode :: ep_directory where
  "lift_episode =
     \<lparr>state_files = [(''state_1.npz'', lift_chunk)], model_xml = Some ''<mujoco/>''\<rparr>"

text \<open>An episode of two chunk files, which \<^verbatim>\<open>glob\<close> lists in the order opposite to their names.\<close>

definition two_env_episode :: ep_directory where
  "two_env_episode =
     \<lparr>state_files = [(''state_2.npz'', stack_chunk), (''state_1.npz'', lift_chunk)],
      model_xml = Some ''<mujoco/>''\<rparr>"

text \<open>The same episode directory, with \<^verbatim>\<open>glob\<close> listing the two files in the order of their names.\<close>

definition two_env_episode_sorted :: ep_directory where
  "two_env_episode_sorted =
     \<lparr>state_files = [(''state_1.npz'', lift_chunk), (''state_2.npz'', stack_chunk)],
      model_xml = Some ''<mujoco/>''\<rparr>"

text \<open>An episode with as many states as actions before the trim.\<close>

definition mismatched_episode :: ep_directory where
  "mismatched_episode =
     \<lparr>state_files = [(''state_1.npz'', stack_chunk)], model_xml = Some ''<mujoco/>''\<rparr>"

text \<open>An episode of one state and no action.\<close>

definition single_state_episode :: ep_directory where
  "single_state_episode =
     \<lparr>state_files = [(''state_1.npz'',
         \<lparr>dic_env = ''Lift'', dic_states = [[7]], dic_action_infos = [],
          dic_centric_obj_pose = [[2]], dic_subtask_begin_index = [0],
          dic_successful = True\<rparr>)],
      model_xml = Some ''<mujoco/>''\<rparr>"

text \<open>
  An episode whose two action records have different lengths, and an episode of one state
  and no action whose two pose samples have different lengths.
\<close>

definition ragged_episode :: ep_directory where
  "ragged_episode =
     \<lparr>state_files = [(''state_1.npz'',
         \<lparr>dic_env = ''Lift'', dic_states = [[0], [1], [2]],
          dic_action_infos = [\<lparr>ai_actions = [0.5]\<rparr>, \<lparr>ai_actions = [0.5, 0.25]\<rparr>],
          dic_centric_obj_pose = [[2]], dic_subtask_begin_index = [0],
          dic_successful = True\<rparr>)],
      model_xml = Some ''<mujoco/>''\<rparr>"

definition ragged_pose_episode :: ep_directory where
  "ragged_pose_episode =
     \<lparr>state_files = [(''state_1.npz'',
         \<lparr>dic_env = ''Lift'', dic_states = [[7]], dic_action_infos = [],
          dic_centric_obj_pose = [[2], [2, 3]], dic_subtask_begin_index = [0],
          dic_successful = True\<rparr>)],
      model_xml = Some ''<mujoco/>''\<rparr>"

text \<open>Ticks of the foreground loop: the device gives a pose command with the gripper closed.\<close>

definition example_action :: action where
  "example_action = [0.5, 0, 0, 0.05, - 0.05, 0.1, 1]"

definition succeeding :: tick where
  "succeeding = \<lparr>input2action = Returns (Some example_action), render = Returns (),
     check_success = Returns True, current_timestamps = 3\<rparr>"

definition failing :: tick where
  "failing = \<lparr>input2action = Returns (Some example_action), render = Returns (),
     check_success = Returns False, current_timestamps = 3\<rparr>"

definition ten_successes :: "tick list" where
  "ten_successes =
     [succeeding, succeeding, succeeding, succeeding, succeeding,
      succeeding, succeeding, succeeding, succeeding, succeeding]"

definition ten_successes_then_failure :: "tick list" where
  "ten_successes_then_failure = ten_successes @ [failing]"

text \<open>The operator interrupts while the success predicate is evaluated; the operator resets.\<close>

definition interrupted :: tick where
  "interrupted = \<lparr>input2action = Returns (Some example_action), render = Returns (),
     check_success = KeyboardInterrupt, current_timestamps = 3\<rparr>"

definition resetting :: tick where
  "resetting = \<lparr>input2action = Returns None, render = Returns (),
     check_success = Returns False, current_timestamps = 3\<rparr>"

text \<open>
  Schedules of the two threads. In the first the controller writes an action, the stepper
  takes the lock, and the controller goes on to its test of the counter. In the second the
  controller writes an action and the stepper runs one whole iteration. In the third the
  operator resets at once, the stepper sees the stop event, and the controller joins it.
\<close>

definition controller_goes :: move where
  "controller_goes = ControllerMove (Returns (Some example_action)) (Returns False)"

definition unlocked_read_schedule :: "move list" where
  "unlocked_read_schedule =
     [controller_goes, controller_goes, controller_goes, controller_goes,
      StepperMove, StepperMove, controller_goes, controller_goes]"

definition one_step_schedule :: "move list" where
  "one_step_schedule =
     [controller_goes, controller_goes, controller_goes, controller_goes,
      StepperMove, StepperMove, StepperMove, StepperMove, StepperMove, StepperMove,
      StepperMove]"

definition reset_schedule :: "move list" where
  "reset_schedule =
     [ControllerMove (Returns None) (Returns False), controller_goes, StepperMove,
      controller_goes]"

section \<open>Facts about the aggregator\<close>

lemma foldl_load_chunk_fixed:
  "grp (foldl load_chunk l cs) = grp l \<and> num_eps (foldl load_chunk l cs) = num_eps l"
  by (induction cs arbitrary: l) (simp_all add: load_chunk_def)

lemma foldl_load_chunk_success:
  "success (foldl load_chunk l cs) = (success l \<or> (\<exists>c\<in>set cs. dic_successful c))"
  by (induction cs arbitrary: l) (auto simp: load_chunk_def)

lemma foldl_load_chunk_states:
  "states (foldl load_chunk l cs) = states l @ concat (map dic_states cs)"
  by (induction cs arbitrary: l) (simp_all add: load_chunk_def)

lemma foldl_load_chunk_actions:
  "actions (foldl load_chunk l cs) =
     actions l @ concat (map (\<lambda>c. map ai_actions (dic_action_infos c)) cs)"
  by (induction cs arbitrary: l) (simp_all add: load_chunk_def)

lemma foldl_load_chunk_env_name:
  "env_name (foldl load_chunk l cs) = (if cs = [] then env_name l else Some (dic_env (last cs)))"
  by (induction cs arbitrary: l) (simp_all add: load_chunk_def)

text \<open>The flag starts as \<open>True\<close> at line 186 and a disjunction never clears it.\<close>

lemma read_episode_success [simp]: "success (read_episode ep l)"
  by (simp add: read_episode_def foldl_load_chunk_success)

lemma read_episode_grp [simp]: "grp (read_episode ep l) = grp l"
  by (simp add: read_episode_def foldl_load_chunk_fixed)

lemma read_episode_num_eps [simp]: "num_eps (read_episode ep l) = num_eps l"
  by (simp add: read_episode_def foldl_load_chunk_fixed)

lemma read_episode_states:
  "states (read_episode ep l) = concat (map dic_states (sorted_glob ep))"
  by (simp add: read_episode_def foldl_load_chunk_states)

lemma read_episode_actions:
  "actions (read_episode ep l) =
     concat (map (\<lambda>c. map ai_actions (dic_action_infos c)) (sorted_glob ep))"
  by (simp add: read_episode_def foldl_load_chunk_actions)

lemma read_episode_env_name:
  "env_name (read_episode ep l) =
     (if sorted_glob ep = [] then env_name l else Some (dic_env (last (sorted_glob ep))))"
  by (simp add: read_episode_def foldl_load_chunk_env_name)

lemma store_episode_env_name:
  "store_episode ep l = Inr l' \<Longrightarrow> env_name l' = env_name l"
  by (auto simp: store_episode_def Let_def split: if_splits option.splits sum.splits prod.splits)

lemma listdir_loop_append:
  "listdir_loop (xs @ ys) l =
     (case listdir_loop xs l of Inl e \<Rightarrow> Inl e | Inr l' \<Rightarrow> listdir_loop ys l')"
  by (induction xs arbitrary: l) (simp_all split: sum.splits)

lemma listdir_loop_env_name:
  "listdir_loop eps l = Inr l' \<Longrightarrow>
   env_name l' = (if concat (map sorted_glob eps) = [] then env_name l
                  else Some (dic_env (last (concat (map sorted_glob eps)))))"
proof (induction eps arbitrary: l)
  case Nil
  then show ?case by simp
next
  case (Cons ep eps)
  from Cons.prems obtain m where m: "episode_body ep l = Inr m" and r: "listdir_loop eps m = Inr l'"
    by (auto split: sum.splits)
  have e: "env_name m =
      (if sorted_glob ep = [] then env_name l else Some (dic_env (last (sorted_glob ep))))"
    using m store_episode_env_name[of ep "read_episode ep l" m]
    by (simp add: episode_body_def read_episode_env_name)
  show ?case using Cons.IH[OF r] e by (auto simp: last_append)
qed

lemma store_episode_attrs:
  "store_episode ep l = Inr l' \<or> store_episode ep l = Inl (e, l') \<Longrightarrow>
   attr_date (grp l') = attr_date (grp l) \<and> attr_time (grp l') = attr_time (grp l) \<and>
   attr_repository_version (grp l') = attr_repository_version (grp l) \<and>
   attr_env (grp l') = attr_env (grp l) \<and> attr_env_info (grp l') = attr_env_info (grp l)"
  by (auto simp: store_episode_def Let_def split: if_splits option.splits sum.splits prod.splits)

lemma listdir_loop_attrs:
  "listdir_loop eps l = Inr l' \<or> listdir_loop eps l = Inl (e, l') \<Longrightarrow>
   attr_date (grp l') = attr_date (grp l) \<and> attr_time (grp l') = attr_time (grp l) \<and>
   attr_repository_version (grp l') = attr_repository_version (grp l) \<and>
   attr_env (grp l') = attr_env (grp l) \<and> attr_env_info (grp l') = attr_env_info (grp l)"
proof (induction eps arbitrary: l)
  case Nil
  then show ?case by auto
next
  case (Cons ep eps)
  show ?case
  proof (cases "episode_body ep l")
    case (Inl p)
    with Cons.prems have "store_episode ep (read_episode ep l) = Inl (e, l')"
      by (auto simp: episode_body_def)
    from store_episode_attrs[of ep "read_episode ep l" l' e] this show ?thesis by simp
  next
    case (Inr m)
    with Cons.prems have "listdir_loop eps m = Inr l' \<or> listdir_loop eps m = Inl (e, l')"
      by simp
    from Cons.IH[OF this] store_episode_attrs[of ep "read_episode ep l" m e] Inr
    show ?thesis by (simp add: episode_body_def)
  qed
qed

lemma initial_attrs:
  "attr_date (grp initial_locals) = None \<and> attr_time (grp initial_locals) = None \<and>
   attr_repository_version (grp initial_locals) = None \<and>
   attr_env (grp initial_locals) = None \<and> attr_env_info (grp initial_locals) = None"
  by (simp add: initial_locals_def empty_data_def)

lemma content_gather_children:
  "listdir_loop eps initial_locals = Inr l \<Longrightarrow>
   children (content (gather_demonstrations_as_hdf5 eps env_info now version)) = children (grp l)"
  by (simp add: gather_demonstrations_as_hdf5_def content_def Let_def split: option.splits)

text \<open>The order in which the chunk files of an episode are listed does not matter.\<close>

lemma filter_key_distinct:
  "distinct (map f xs) \<Longrightarrow> k \<in> set xs \<Longrightarrow> filter (\<lambda>x. f k = f x) xs = [k]"
proof (induction xs)
  case Nil
  then show ?case by simp
next
  case (Cons x xs)
  show ?case
  proof (cases "k = x")
    case True
    have "filter (\<lambda>y. f x = f y) xs = []"
      using Cons.prems(1) by (auto simp: filter_empty_conv)
    with True show ?thesis by simp
  next
    case False
    then have k: "k \<in> set xs" using Cons.prems(2) by simp
    then have "f k \<in> f ` set xs" by simp
    then have "f k \<noteq> f x" using Cons.prems(1) by auto
    with Cons.IH k Cons.prems(1) show ?thesis by simp
  qed
qed

lemma sort_key_same_files:
  assumes "mset xs = mset ys" and "distinct (map f xs)"
  shows "sort_key f xs = sort_key f ys"
proof -
  have "mset (map f xs) = mset (map f ys)" using assms(1) by simp
  then have d: "distinct (map f ys)"
    using assms(2) mset_eq_imp_distinct_iff by blast
  have "sort_key f ys = sort_key f xs"
  proof (rule properties_for_sort_key)
    show "mset (sort_key f xs) = mset ys" using assms(1) by simp
    show "sorted (map f (sort_key f xs))" by simp
    fix k assume "k \<in> set (sort_key f xs)"
    then have kx: "k \<in> set xs" by simp
    then have ky: "k \<in> set ys" using assms(1) by (metis mset_eq_setD)
    have "filter (\<lambda>x. f k = f x) (sort_key f xs) = sort_key f (filter (\<lambda>x. f k = f x) xs)"
      by (simp add: filter_sort)
    also have "\<dots> = [k]" using filter_key_distinct[OF assms(2) kx] by simp
    also have "\<dots> = filter (\<lambda>x. f k = f x) ys" using filter_key_distinct[OF d ky] by simp
    finally show "filter (\<lambda>x. f k = f x) (sort_key f xs) = filter (\<lambda>x. f k = f x) ys" .
  qed
  then show ?thesis by simp
qed

lemma same_files_body:
  assumes "same_files ep ep'"
  shows "episode_body ep l = episode_body ep' l"
proof -
  have "sorted_glob ep = sorted_glob ep'"
    using assms sort_key_same_files[of "state_files ep" "state_files ep'" fst]
    by (simp add: same_files_def sorted_glob_def)
  then have r: "read_episode ep l = read_episode ep' l" by (simp add: read_episode_def)
  have "model_xml ep = model_xml ep'" using assms by (simp add: same_files_def)
  then have "store_episode ep (read_episode ep' l) = store_episode ep' (read_episode ep' l)"
    by (simp add: store_episode_def Let_def)
  with r show ?thesis by (simp add: episode_body_def)
qed

lemma same_files_loop:
  "list_all2 same_files d1 d2 \<Longrightarrow> listdir_loop d1 l = listdir_loop d2 l"
proof (induction d1 d2 arbitrary: l rule: list_all2_induct)
  case Nil
  show ?case by simp
next
  case (Cons ep d1 ep' d2)
  then show ?case by (simp add: same_files_body[of ep ep'] split: sum.splits)
qed


text \<open>What the loop body does depends on the locals only for where the groups go.\<close>

lemma foldl_load_chunk_pose:
  "centric_obj_pose (foldl load_chunk l cs) =
     centric_obj_pose l @ concat (map dic_centric_obj_pose cs)"
  by (induction cs arbitrary: l) (simp_all add: load_chunk_def)

lemma foldl_load_chunk_subtask:
  "subtask_begin_index (foldl load_chunk l cs) =
     subtask_begin_index l @ concat (map dic_subtask_begin_index cs)"
  by (induction cs arbitrary: l) (simp_all add: load_chunk_def)

lemma read_episode_pose:
  "centric_obj_pose (read_episode ep l) = concat (map dic_centric_obj_pose (sorted_glob ep))"
  by (simp add: read_episode_def foldl_load_chunk_pose)

lemma read_episode_subtask:
  "subtask_begin_index (read_episode ep l) =
     concat (map dic_subtask_begin_index (sorted_glob ep))"
  by (simp add: read_episode_def foldl_load_chunk_subtask)

lemmas read_episode_data = read_episode_states read_episode_actions read_episode_pose
  read_episode_subtask

lemma numbered_initial: "numbered initial_locals"
  by (simp add: numbered_def initial_locals_def empty_data_def)

lemma episode_body_passes:
  assumes "passes ep"
  shows "\<exists>l'. episode_body ep l = Inr l' \<and>
           map unnamed (children (grp l')) = map unnamed (children (grp l)) @ emitted ep \<and>
           (numbered l \<longrightarrow> numbered l')"
  using assms
  by (auto simp: passes_def emitted_def episode_body_def store_episode_def create_datasets_def
        np_array_def Let_def read_episode_data unnamed_def new_group_def numbered_def
        initial_locals_def empty_data_def
      split: if_splits option.splits sum.splits)

lemma episode_body_fails:
  assumes "\<not> passes ep"
  shows "\<exists>x. episode_body ep l = Inl x"
  using assms
  by (auto simp: passes_def episode_body_def store_episode_def create_datasets_def
        np_array_def Let_def read_episode_data
      split: if_splits option.splits sum.splits)


lemma listdir_loop_passes:
  assumes "\<forall>ep\<in>set eps. passes ep"
  shows "\<exists>l'. listdir_loop eps l = Inr l' \<and>
           map unnamed (children (grp l')) =
             map unnamed (children (grp l)) @ concat (map emitted eps) \<and>
           (numbered l \<longrightarrow> numbered l')"
  using assms
proof (induction eps arbitrary: l)
  case Nil
  show ?case by simp
next
  case (Cons ep eps)
  from Cons.prems episode_body_passes[of ep l] obtain m where
    m: "episode_body ep l = Inr m"
       "map unnamed (children (grp m)) = map unnamed (children (grp l)) @ emitted ep"
       "numbered l \<longrightarrow> numbered m"
    by auto
  from Cons.IH[of m] Cons.prems obtain l' where
    l': "listdir_loop eps m = Inr l'"
        "map unnamed (children (grp l')) = map unnamed (children (grp m)) @ concat (map emitted eps)"
        "numbered m \<longrightarrow> numbered l'"
    by auto
  show ?case using m l' by simp
qed

lemma listdir_loop_completes:
  "listdir_loop eps l = Inr l' \<Longrightarrow> \<forall>ep\<in>set eps. passes ep"
proof (induction eps arbitrary: l)
  case Nil
  show ?case by simp
next
  case (Cons ep eps)
  from Cons.prems obtain m where m: "episode_body ep l = Inr m" and r: "listdir_loop eps m = Inr l'"
    by (auto split: sum.splits)
  from m episode_body_fails[of ep l] have "passes ep" by auto
  with Cons.IH[OF r] show ?case by simp
qed

lemma mset_concat_map_perm:
  "mset xs = mset ys \<Longrightarrow> mset (concat (map f xs)) = mset (concat (map f ys))"
proof -
  assume a: "mset xs = mset ys"
  have "mset (concat (map f zs)) = sum_mset (image_mset (\<lambda>z. mset (f z)) (mset zs))" for zs
    by (induction zs) simp_all
  with a show ?thesis by simp
qed

lemma numbered_names:
  "numbered l \<Longrightarrow>
   map grp_name (children (grp l)) =
     map (\<lambda>i. ''demo_'' @ str_nat i) [0..<length (children (grp l))]"
proof -
  assume n: "numbered l"
  then have "length (map grp_name (children (grp l))) = length [0..<num_eps l]"
    unfolding numbered_def by (metis length_map)
  then have "num_eps l = length (children (grp l))" by simp
  with n show ?thesis by (simp add: numbered_def)
qed

text \<open>Unfolding the aggregator and the example inputs, to evaluate a concrete run.\<close>

lemmas aggregator_defs = gather_demonstrations_as_hdf5_def episode_body_def read_episode_def
  store_episode_def sorted_glob_def load_chunk_def initial_locals_def empty_data_def
  new_group_def content_def create_datasets_def np_array_def rectangular_def str_nat.simps
  digit_def Let_def

lemmas example_defs = example_now_def lift_chunk_def stack_chunk_def lift_episode_def
  two_env_episode_def mismatched_episode_def single_state_episode_def ragged_episode_def
  ragged_pose_episode_def two_env_episode_sorted_def

section \<open>The success filter\<close>

text \<open>
  C1. The claim is that the derived success of an episode is the disjunction of the
  success flags of its chunks and that an episode whose derived success is false gets no
  group. The code starts the flag as \<open>True\<close>, so it is \<open>True\<close> for every episode: the
  episode made of one chunk whose flag is false has derived success \<open>True\<close> and is written
  as \<^verbatim>\<open>demo_0\<close>.
\<close>

theorem unsuccessful_episode_is_saved:
  "\<not> dic_successful failed_chunk \<and>
   success (read_episode failed_episode initial_locals) \<and>
   gather_demonstrations_as_hdf5 [failed_episode] ''{}'' example_now ''1.4.0'' =
     Inr \<lparr>children = [\<lparr>grp_name = ''demo_0'', attr_model_file = Some ''<mujoco/>'',
             ds_states = Some [[0]], ds_actions = Some [[0.5]],
             ds_centric_obj_pose = Some [[2]], ds_subtask_begin_index = Some [0]\<rparr>],
          attr_date = Some ''3-7-2024'', attr_time = Some ''9:5:0'',
          attr_repository_version = Some ''1.4.0'', attr_env = Some ''Lift'',
          attr_env_info = Some ''{}''\<rparr>"
  by (simp add: aggregator_defs failed_episode_def failed_chunk_def example_now_def)

section \<open>Trim and length check\<close>

text \<open>
  C6. For an episode that is kept (its derived success is true and it has a state), the
  aggregator deletes the last state of the concatenated sequence. When the episode had one
  state more than actions, the lengths agree after the trim, the assertion passes and the
  aggregation goes on to create the group of the episode: the loop body either completes,
  with the trimmed states and the actions as datasets of the new group, or is stopped after
  the group is created by an exception that is not the assertion (a missing \<^verbatim>\<open>model.xml\<close>,
  rows of unequal lengths). With any other relation of the two lengths the assertion fails: the
  loop body raises \<^verbatim>\<open>AssertionError\<close>, and so does the loop over the directory, whatever
  episodes would follow.
\<close>

theorem trim_then_assert:
  assumes "success (read_episode ep l)" and "states (read_episode ep l) \<noteq> []"
  shows "(length (states (read_episode ep l)) = length (actions (read_episode ep l)) + 1 \<longrightarrow>
            length (butlast (states (read_episode ep l))) = length (actions (read_episode ep l)) \<and>
            (case episode_body ep l of
               Inr l' \<Rightarrow>
                 states l' = butlast (states (read_episode ep l)) \<and>
                 ds_states (last (children (grp l'))) = Some (butlast (states (read_episode ep l))) \<and>
                 ds_actions (last (children (grp l'))) = Some (actions (read_episode ep l)) \<and>
                 length (children (grp l')) = length (children (grp l)) + 1
             | Inl (e, l') \<Rightarrow>
                 e \<noteq> AssertionError \<and>
                 states l' = butlast (states (read_episode ep l)) \<and>
                 length (children (grp l')) = length (children (grp l)) + 1)) \<and>
         (length (states (read_episode ep l)) \<noteq> length (actions (read_episode ep l)) + 1 \<longrightarrow>
            episode_body ep l =
              Inl (AssertionError,
                   (read_episode ep l)\<lparr>states := butlast (states (read_episode ep l))\<rparr>) \<and>
            listdir_loop (ep # rest) l =
              Inl (AssertionError,
                   (read_episode ep l)\<lparr>states := butlast (states (read_episode ep l))\<rparr>))"
  using assms
  by (cases "states (read_episode ep l)" rule: rev_cases)
     (auto simp: episode_body_def store_episode_def create_datasets_def np_array_def Let_def
           split: option.splits)

theorem trim_then_assert_witness:
  "success (read_episode lift_episode initial_locals) \<and>
   states (read_episode lift_episode initial_locals) = [[0], [1]] \<and>
   actions (read_episode lift_episode initial_locals) = [[0.5]] \<and>
   states (projr (episode_body lift_episode initial_locals)) = [[0]] \<and>
   ds_states (last (children (grp (projr (episode_body lift_episode initial_locals))))) =
     Some [[0]] \<and>
   states (read_episode ragged_episode initial_locals) = [[0], [1], [2]] \<and>
   actions (read_episode ragged_episode initial_locals) = [[0.5], [0.5, 0.25]] \<and>
   fst (projl (episode_body ragged_episode initial_locals)) = ValueError \<and>
   states (read_episode mismatched_episode initial_locals) = [[3]] \<and>
   actions (read_episode mismatched_episode initial_locals) = [[0.25]] \<and>
   listdir_loop [mismatched_episode, lift_episode] initial_locals =
     Inl (AssertionError, (read_episode mismatched_episode initial_locals)\<lparr>states := []\<rparr>)"
  using trim_then_assert [of lift_episode initial_locals "[]"]
    trim_then_assert [of ragged_episode initial_locals "[]"]
    trim_then_assert [of mismatched_episode initial_locals "[lift_episode]"]
  by (simp add: aggregator_defs example_defs)

section \<open>An episode of a single state\<close>

text \<open>
  C10. When the chunks of an episode hold exactly one state and no action record (and the
  derived success is true), the episode is not skipped: the test for an empty episode sees
  one state, the trim removes it, the assertion compares 0 with 0 and passes, and the group
  \<^verbatim>\<open>demo_k\<close> is created, \<open>k\<close> being the number of groups so far. When \<^verbatim>\<open>model.xml\<close> can be
  read, the datasets \<^verbatim>\<open>states\<close> and \<^verbatim>\<open>actions\<close> are written into the group and both are
  empty, whether or not the loop body then completes.
\<close>

theorem single_state_episode_is_emitted:
  assumes "length (states (read_episode ep l)) = 1" and "actions (read_episode ep l) = []"
    and "success (read_episode ep l)"
  shows "(\<exists>e l'. (episode_body ep l = Inr l' \<or>
                  episode_body ep l = Inl (e, l') \<and> e \<noteq> AssertionError) \<and>
            states l' = [] \<and> actions l' = [] \<and>
            butlast (children (grp l')) = children (grp l) \<and>
            grp_name (last (children (grp l'))) = ''demo_'' @ str_nat (num_eps l) \<and>
            num_eps l' = num_eps l + 1) \<and>
         (\<forall>xml_str. model_xml ep = Some xml_str \<longrightarrow>
            (\<exists>e l'. (episode_body ep l = Inr l' \<or>
                     episode_body ep l = Inl (e, l') \<and> e \<noteq> AssertionError \<and>
                       e \<noteq> FileNotFoundError) \<and>
               butlast (children (grp l')) = children (grp l) \<and>
               grp_name (last (children (grp l'))) = ''demo_'' @ str_nat (num_eps l) \<and>
               attr_model_file (last (children (grp l'))) = Some xml_str \<and>
               ds_states (last (children (grp l'))) = Some [] \<and>
               ds_actions (last (children (grp l'))) = Some []))"
proof -
  obtain s where s: "states (read_episode ep l) = [s]"
    using assms(1) by (cases "states (read_episode ep l)") auto
  have r: "rectangular []" by (simp add: rectangular_def)
  show ?thesis
  proof (cases "model_xml ep")
    case None
    then show ?thesis using assms s
      by (simp add: episode_body_def store_episode_def Let_def new_group_def)
  next
    case (Some x)
    show ?thesis
    proof (cases "rectangular (centric_obj_pose (read_episode ep l))")
      case True
      then show ?thesis using assms s r Some
        by (simp add: episode_body_def store_episode_def create_datasets_def np_array_def
            Let_def new_group_def)
    next
      case False
      then show ?thesis using assms s r Some
        by (simp add: episode_body_def store_episode_def create_datasets_def np_array_def
            Let_def new_group_def)
    qed
  qed
qed

theorem single_state_episode_is_emitted_witness:
  "length (states (read_episode single_state_episode initial_locals)) = 1 \<and>
   actions (read_episode single_state_episode initial_locals) = [] \<and>
   success (read_episode single_state_episode initial_locals) \<and>
   model_xml single_state_episode = Some ''<mujoco/>'' \<and>
   gather_demonstrations_as_hdf5 [single_state_episode] ''{}'' example_now ''1.4.0'' =
     Inr \<lparr>children = [\<lparr>grp_name = ''demo_0'', attr_model_file = Some ''<mujoco/>'',
             ds_states = Some [], ds_actions = Some [],
             ds_centric_obj_pose = Some [[2]], ds_subtask_begin_index = Some [0]\<rparr>],
          attr_date = Some ''3-7-2024'', attr_time = Some ''9:5:0'',
          attr_repository_version = Some ''1.4.0'', attr_env = Some ''Lift'',
          attr_env_info = Some ''{}''\<rparr> \<and>
   gather_demonstrations_as_hdf5 [ragged_pose_episode] ''{}'' example_now ''1.4.0'' =
     Inl (ValueError,
       \<lparr>children = [\<lparr>grp_name = ''demo_0'', attr_model_file = Some ''<mujoco/>'',
           ds_states = Some [], ds_actions = Some [],
           ds_centric_obj_pose = None, ds_subtask_begin_index = None\<rparr>],
        attr_date = None, attr_time = None, attr_repository_version = None,
        attr_env = None, attr_env_info = None\<rparr>)"
  using single_state_episode_is_emitted [of single_state_episode initial_locals]
    single_state_episode_is_emitted [of ragged_pose_episode initial_locals]
  by (simp add: aggregator_defs example_defs)

section \<open>The attribute \<^verbatim>\<open>env\<close>\<close>

text \<open>
  C3, as claimed: the attribute \<^verbatim>\<open>env\<close> is the environment name of the first chunk record
  read. It is not: \<^verbatim>\<open>env_name\<close> is assigned again for every chunk file (line 190). The
  episode below has the chunk files \<^verbatim>\<open>state_1.npz\<close> of \<^verbatim>\<open>Lift\<close> and \<^verbatim>\<open>state_2.npz\<close> of
  \<^verbatim>\<open>Stack\<close>; the first one read is the one of \<^verbatim>\<open>Lift\<close>, and the attribute is \<^verbatim>\<open>Stack\<close>.
\<close>

theorem env_attribute_not_first_chunk:
  "dic_env (hd (concat (map sorted_glob [two_env_episode]))) = ''Lift'' \<and>
   gather_demonstrations_as_hdf5 [two_env_episode] ''{}'' example_now ''1.4.0'' =
     Inr \<lparr>children = [\<lparr>grp_name = ''demo_0'', attr_model_file = Some ''<mujoco/>'',
             ds_states = Some [[0], [1]], ds_actions = Some [[0.5], [0.25]],
             ds_centric_obj_pose = Some [[2]], ds_subtask_begin_index = Some [0]\<rparr>],
          attr_date = Some ''3-7-2024'', attr_time = Some ''9:5:0'',
          attr_repository_version = Some ''1.4.0'', attr_env = Some ''Stack'',
          attr_env_info = Some ''{}''\<rparr>"
  by (simp add: aggregator_defs example_defs)

text \<open>
  C3, amended: for a directory with at least one chunk record on which the run completes,
  the attribute \<^verbatim>\<open>env\<close> is the environment name of the last chunk record read (the last
  chunk file, in sorted order, of the last episode directory listed that has one).
\<close>

theorem env_attribute_is_last_chunk:
  assumes "concat (map sorted_glob directory) \<noteq> []"
    and "gather_demonstrations_as_hdf5 directory env_info now version = Inr g"
  shows "attr_env g = Some (dic_env (last (concat (map sorted_glob directory))))"
proof -
  from assms(2) obtain l n where l: "listdir_loop directory initial_locals = Inr l"
      and n: "env_name l = Some n" and g: "attr_env g = Some n"
    by (auto simp: gather_demonstrations_as_hdf5_def Let_def split: sum.splits option.splits)
  from listdir_loop_env_name[OF l] assms(1)
  have "env_name l = Some (dic_env (last (concat (map sorted_glob directory))))"
    by (simp only: if_False)
  with n g show ?thesis by simp
qed

theorem env_attribute_is_last_chunk_witness:
  "concat (map sorted_glob [lift_episode, two_env_episode]) =
     [lift_chunk, lift_chunk, stack_chunk] \<and>
   gather_demonstrations_as_hdf5 [lift_episode, two_env_episode] ''{}'' example_now ''1.4.0'' =
     Inr (content (gather_demonstrations_as_hdf5 [lift_episode, two_env_episode]
       ''{}'' example_now ''1.4.0'')) \<and>
   attr_env (content (gather_demonstrations_as_hdf5 [lift_episode, two_env_episode]
     ''{}'' example_now ''1.4.0'')) = Some ''Stack''"
  using env_attribute_is_last_chunk [of "[lift_episode, two_env_episode]" "''{}''"
    example_now "''1.4.0''"
    "content (gather_demonstrations_as_hdf5 [lift_episode, two_env_episode]
       ''{}'' example_now ''1.4.0'')"]
  by (simp add: aggregator_defs example_defs)

section \<open>A failed assertion and the output written so far\<close>

text \<open>
  C7, as claimed: when the assertion fails, the output holds no episode group. It does: the
  file is opened for writing before the loop and every kept episode is written into it as
  the loop goes. In the run below the first episode is written as \<^verbatim>\<open>demo_0\<close> and the second
  one fails the assertion; the content at the exception holds \<^verbatim>\<open>demo_0\<close>.
\<close>

theorem assertion_failure_keeps_demo_0:
  "gather_demonstrations_as_hdf5 [lift_episode, mismatched_episode] ''{}'' example_now ''1.4.0'' =
     Inl (AssertionError,
       \<lparr>children = [\<lparr>grp_name = ''demo_0'', attr_model_file = Some ''<mujoco/>'',
           ds_states = Some [[0]], ds_actions = Some [[0.5]],
           ds_centric_obj_pose = Some [[2]], ds_subtask_begin_index = Some [0]\<rparr>],
        attr_date = None, attr_time = None, attr_repository_version = None,
        attr_env = None, attr_env_info = None\<rparr>)"
  by (simp add: aggregator_defs example_defs)

text \<open>
  C7, amended: when the assertion fails for an episode, the run ends with
  \<^verbatim>\<open>AssertionError\<close>, whatever episodes would follow. The content written at that point
  holds the groups of the episodes before it, the same groups a run over those episodes
  alone writes, and none of the five attributes of the run.
\<close>

theorem assertion_failure_leaves_earlier_groups:
  assumes "listdir_loop earlier initial_locals = Inr l"
    and "states (read_episode ep l) \<noteq> []"
    and "length (states (read_episode ep l)) \<noteq> length (actions (read_episode ep l)) + 1"
  shows "gather_demonstrations_as_hdf5 (earlier @ ep # later) env_info now version =
           Inl (AssertionError, grp l) \<and>
         children (grp l) =
           children (content (gather_demonstrations_as_hdf5 earlier env_info now version)) \<and>
         attr_date (grp l) = None \<and> attr_time (grp l) = None \<and>
         attr_repository_version (grp l) = None \<and> attr_env (grp l) = None \<and>
         attr_env_info (grp l) = None"
proof -
  have b: "episode_body ep l =
      Inl (AssertionError, (read_episode ep l)\<lparr>states := butlast (states (read_episode ep l))\<rparr>)"
    using assms(2,3)
    by (cases "states (read_episode ep l)" rule: rev_cases)
       (auto simp: episode_body_def store_episode_def Let_def)
  have "listdir_loop (earlier @ ep # later) initial_locals =
      Inl (AssertionError, (read_episode ep l)\<lparr>states := butlast (states (read_episode ep l))\<rparr>)"
    using assms(1) b by (simp add: listdir_loop_append)
  then have g: "gather_demonstrations_as_hdf5 (earlier @ ep # later) env_info now version =
      Inl (AssertionError, grp l)"
    by (simp add: gather_demonstrations_as_hdf5_def)
  from listdir_loop_attrs[of earlier initial_locals l] assms(1) initial_attrs
  have a: "attr_date (grp l) = None \<and> attr_time (grp l) = None \<and>
     attr_repository_version (grp l) = None \<and> attr_env (grp l) = None \<and>
     attr_env_info (grp l) = None" by simp
  show ?thesis using g a content_gather_children[OF assms(1)] by simp
qed

theorem assertion_failure_leaves_earlier_groups_witness:
  "listdir_loop [lift_episode] initial_locals =
     Inr (projr (listdir_loop [lift_episode] initial_locals)) \<and>
   states (read_episode mismatched_episode (projr (listdir_loop [lift_episode] initial_locals))) =
     [[3]] \<and>
   actions (read_episode mismatched_episode (projr (listdir_loop [lift_episode] initial_locals))) =
     [[0.25]] \<and>
   gather_demonstrations_as_hdf5 ([lift_episode] @ mismatched_episode # [lift_episode])
       ''{}'' example_now ''1.4.0'' =
     Inl (AssertionError, grp (projr (listdir_loop [lift_episode] initial_locals))) \<and>
   map grp_name (children (grp (projr (listdir_loop [lift_episode] initial_locals)))) =
     [''demo_0'']"
  using assertion_failure_leaves_earlier_groups [of "[lift_episode]"
    "projr (listdir_loop [lift_episode] initial_locals)" mismatched_episode "[lift_episode]"
    "''{}''" example_now "''1.4.0''"]
  by (simp add: aggregator_defs example_defs)

section \<open>Running the aggregation twice\<close>

text \<open>
  C8, as claimed: two runs on the same unchanged directory tree give the same episodes in
  the same order, the date and the time apart. The order of the episodes is the order in
  which \<^verbatim>\<open>os.listdir\<close> yields the episode directories (line 180), which nothing sorts. The
  two listings below hold the same two episode directories; the groups \<^verbatim>\<open>demo_0\<close> and
  \<^verbatim>\<open>demo_1\<close> change places and the attribute \<^verbatim>\<open>env\<close> changes with them.
\<close>

theorem listing_order_changes_dataset:
  "mset [lift_episode, two_env_episode] = mset [two_env_episode, lift_episode] \<and>
   gather_demonstrations_as_hdf5 [lift_episode, two_env_episode] ''{}'' example_now ''1.4.0'' =
     Inr \<lparr>children =
            [\<lparr>grp_name = ''demo_0'', attr_model_file = Some ''<mujoco/>'',
              ds_states = Some [[0]], ds_actions = Some [[0.5]],
              ds_centric_obj_pose = Some [[2]], ds_subtask_begin_index = Some [0]\<rparr>,
             \<lparr>grp_name = ''demo_1'', attr_model_file = Some ''<mujoco/>'',
              ds_states = Some [[0], [1]], ds_actions = Some [[0.5], [0.25]],
              ds_centric_obj_pose = Some [[2]], ds_subtask_begin_index = Some [0]\<rparr>],
          attr_date = Some ''3-7-2024'', attr_time = Some ''9:5:0'',
          attr_repository_version = Some ''1.4.0'', attr_env = Some ''Stack'',
          attr_env_info = Some ''{}''\<rparr> \<and>
   gather_demonstrations_as_hdf5 [two_env_episode, lift_episode] ''{}'' example_now ''1.4.0'' =
     Inr \<lparr>children =
            [\<lparr>grp_name = ''demo_0'', attr_model_file = Some ''<mujoco/>'',
              ds_states = Some [[0], [1]], ds_actions = Some [[0.5], [0.25]],
              ds_centric_obj_pose = Some [[2]], ds_subtask_begin_index = Some [0]\<rparr>,
             \<lparr>grp_name = ''demo_1'', attr_model_file = Some ''<mujoco/>'',
              ds_states = Some [[0]], ds_actions = Some [[0.5]],
              ds_centric_obj_pose = Some [[2]], ds_subtask_begin_index = Some [0]\<rparr>],
          attr_date = Some ''3-7-2024'', attr_time = Some ''9:5:0'',
          attr_repository_version = Some ''1.4.0'', attr_env = Some ''Lift'',
          attr_env_info = Some ''{}''\<rparr> \<and>
   map_sum (map_prod id without_date_time) without_date_time
     (gather_demonstrations_as_hdf5 [lift_episode, two_env_episode] ''{}'' example_now ''1.4.0'') \<noteq>
   map_sum (map_prod id without_date_time) without_date_time
     (gather_demonstrations_as_hdf5 [two_env_episode, lift_episode] ''{}'' example_now ''1.4.0'')"
  by (simp add: aggregator_defs example_defs without_date_time_def)

text \<open>
  C8, amended: take two runs with the same \<^verbatim>\<open>env_info\<close> and version, at any two times. If
  both read the same episode directories in the same order, with the chunk files of each
  directory listed by \<^verbatim>\<open>glob\<close> in whatever order, they end the same way (both complete, or
  both raise the same exception) with the same groups in the same order and the same
  attributes, the date and the time apart. If the two listings hold the same episode
  directories in different orders and the first run completes, the second completes as well,
  with the same group names, the same version and \<^verbatim>\<open>env_info\<close>, and the same contents of
  the groups taken together; which content goes under which name, and the attribute
  \<^verbatim>\<open>env\<close>, follow the order of the listing.
\<close>

theorem gather_twice_up_to_listing_order:
  "(list_all2 same_files directory1 directory2 \<longrightarrow>
      map_sum (map_prod id without_date_time) without_date_time
        (gather_demonstrations_as_hdf5 directory1 env_info now1 version) =
      map_sum (map_prod id without_date_time) without_date_time
        (gather_demonstrations_as_hdf5 directory2 env_info now2 version)) \<and>
   (mset directory1 = mset directory2 \<longrightarrow>
      (\<forall>g1. gather_demonstrations_as_hdf5 directory1 env_info now1 version = Inr g1 \<longrightarrow>
         (\<exists>g2. gather_demonstrations_as_hdf5 directory2 env_info now2 version = Inr g2 \<and>
            map grp_name (children g2) = map grp_name (children g1) \<and>
            mset (map unnamed (children g2)) = mset (map unnamed (children g1)) \<and>
            attr_repository_version g2 = attr_repository_version g1 \<and>
            attr_env_info g2 = attr_env_info g1)))"
proof (intro conjI impI allI)
  assume "list_all2 same_files directory1 directory2"
  then have "listdir_loop directory1 initial_locals = listdir_loop directory2 initial_locals"
    by (rule same_files_loop)
  then show "map_sum (map_prod id without_date_time) without_date_time
        (gather_demonstrations_as_hdf5 directory1 env_info now1 version) =
      map_sum (map_prod id without_date_time) without_date_time
        (gather_demonstrations_as_hdf5 directory2 env_info now2 version)"
    by (simp add: gather_demonstrations_as_hdf5_def without_date_time_def Let_def
        split: sum.splits option.splits prod.splits)
next
  fix g1
  assume p: "mset directory1 = mset directory2"
    and g1: "gather_demonstrations_as_hdf5 directory1 env_info now1 version = Inr g1"
  from g1 obtain l1 n1 where l1: "listdir_loop directory1 initial_locals = Inr l1"
      and n1: "env_name l1 = Some n1"
      and c1: "children g1 = children (grp l1)"
      and a1: "attr_repository_version g1 = Some version" "attr_env_info g1 = Some env_info"
    by (auto simp: gather_demonstrations_as_hdf5_def Let_def split: sum.splits option.splits)
  have s: "set directory1 = set directory2" using p by (rule mset_eq_setD)
  from listdir_loop_completes[OF l1] s have ok: "\<forall>ep\<in>set directory2. passes ep" by simp
  from listdir_loop_passes[OF ok, of initial_locals] numbered_initial obtain l2 where
    l2: "listdir_loop directory2 initial_locals = Inr l2"
        "map unnamed (children (grp l2)) =
           map unnamed (children (grp initial_locals)) @ concat (map emitted directory2)"
        "numbered l2"
    by auto
  from listdir_loop_completes[OF l1] have ok1: "\<forall>ep\<in>set directory1. passes ep" .
  from listdir_loop_passes[OF ok1, of initial_locals] l1 numbered_initial have
    u1: "map unnamed (children (grp l1)) =
           map unnamed (children (grp initial_locals)) @ concat (map emitted directory1)"
    and nb1: "numbered l1"
    by auto
  have e0: "children (grp initial_locals) = []" by (simp add: initial_locals_def empty_data_def)
  have m: "mset (map unnamed (children (grp l2))) = mset (map unnamed (children (grp l1)))"
    using l2(2) u1 e0 mset_concat_map_perm[OF p, of emitted] by simp
  then have "size (mset (map unnamed (children (grp l2)))) =
      size (mset (map unnamed (children (grp l1))))" by simp
  then have len: "length (children (grp l2)) = length (children (grp l1))" by simp
  have names: "map grp_name (children (grp l2)) = map grp_name (children (grp l1))"
    using numbered_names[OF l2(3)] numbered_names[OF nb1] len by simp
  have "concat (map sorted_glob directory1) \<noteq> []"
    using listdir_loop_env_name[OF l1] n1 by (auto simp: initial_locals_def split: if_splits)
  then have "\<exists>ep\<in>set directory1. sorted_glob ep \<noteq> []" by auto
  then have "concat (map sorted_glob directory2) \<noteq> []" using s by auto
  with listdir_loop_env_name[OF l2(1)] obtain n2 where n2: "env_name l2 = Some n2"
    by (auto split: if_splits)
  let ?g2 = "(grp l2)\<lparr>
      attr_date := Some (str_nat (month now2) @ ''-'' @ str_nat (day now2) @ ''-'' @ str_nat (year now2)),
      attr_time := Some (str_nat (hour now2) @ '':'' @ str_nat (minute now2) @ '':'' @ str_nat (second now2)),
      attr_repository_version := Some version, attr_env := Some n2,
      attr_env_info := Some env_info\<rparr>"
  have "gather_demonstrations_as_hdf5 directory2 env_info now2 version = Inr ?g2"
    using l2(1) n2 by (simp add: gather_demonstrations_as_hdf5_def Let_def)
  moreover have "map grp_name (children ?g2) = map grp_name (children g1)"
    using names c1 by simp
  moreover have "mset (map unnamed (children ?g2)) = mset (map unnamed (children g1))"
    using m c1 by simp
  moreover have "attr_repository_version ?g2 = attr_repository_version g1"
    "attr_env_info ?g2 = attr_env_info g1" using a1 by simp_all
  ultimately show "\<exists>g2. gather_demonstrations_as_hdf5 directory2 env_info now2 version = Inr g2 \<and>
            map grp_name (children g2) = map grp_name (children g1) \<and>
            mset (map unnamed (children g2)) = mset (map unnamed (children g1)) \<and>
            attr_repository_version g2 = attr_repository_version g1 \<and>
            attr_env_info g2 = attr_env_info g1"
    by blast
qed

theorem gather_twice_up_to_listing_order_witness:
  "list_all2 same_files [two_env_episode] [two_env_episode_sorted] \<and>
   state_files two_env_episode \<noteq> state_files two_env_episode_sorted \<and>
   map_sum (map_prod id without_date_time) without_date_time
     (gather_demonstrations_as_hdf5 [two_env_episode] ''{}'' example_now ''1.4.0'') =
   map_sum (map_prod id without_date_time) without_date_time
     (gather_demonstrations_as_hdf5 [two_env_episode_sorted] ''{}''
        (example_now\<lparr>hour := 17, second := 42\<rparr>) ''1.4.0'') \<and>
   attr_time (content (gather_demonstrations_as_hdf5 [two_env_episode_sorted] ''{}''
        (example_now\<lparr>hour := 17, second := 42\<rparr>) ''1.4.0'')) = Some ''17:5:42'' \<and>
   mset [lift_episode, two_env_episode] = mset [two_env_episode, lift_episode] \<and>
   gather_demonstrations_as_hdf5 [lift_episode, two_env_episode] ''{}'' example_now ''1.4.0'' =
     Inr (content (gather_demonstrations_as_hdf5 [lift_episode, two_env_episode]
       ''{}'' example_now ''1.4.0'')) \<and>
   map grp_name (children (content (gather_demonstrations_as_hdf5
       [two_env_episode, lift_episode] ''{}'' example_now ''1.4.0''))) =
     [''demo_0'', ''demo_1''] \<and>
   mset (map unnamed (children (content (gather_demonstrations_as_hdf5
       [two_env_episode, lift_episode] ''{}'' example_now ''1.4.0'')))) =
   mset (map unnamed (children (content (gather_demonstrations_as_hdf5
       [lift_episode, two_env_episode] ''{}'' example_now ''1.4.0''))))"
  using gather_twice_up_to_listing_order [of "[two_env_episode]" "[two_env_episode_sorted]"
      "''{}''" example_now "''1.4.0''" "example_now\<lparr>hour := 17, second := 42\<rparr>"]
    gather_twice_up_to_listing_order [of "[lift_episode, two_env_episode]"
      "[two_env_episode, lift_episode]" "''{}''" example_now "''1.4.0''" example_now]
  by (simp add: aggregator_defs example_defs same_files_def unnamed_def)

section \<open>Facts about the foreground loop\<close>

lemma is_dead_abs: "is_dead d x = (\<bar>x\<bar> < d)"
  by (auto simp: is_dead_def)

lemma apply_deadzone_long:
  assumes "6 \<le> length a"
  shows "\<exists>a'. apply_deadzone a = Inr a' \<and> length a' = length a \<and>
           (\<forall>i<length a. a' ! i = (if i < 6 \<and> \<bar>a ! i\<bar> < deadzone ! i then 0 else a ! i))"
proof -
  let ?a' = "map2 (\<lambda>d x. if is_dead d x then 0 else x) deadzone (take 6 a) @ drop 6 a"
  have e: "apply_deadzone a = Inr ?a'" using assms by (simp add: apply_deadzone_def)
  have l6: "length deadzone = 6" by (simp add: deadzone_def)
  have len: "length ?a' = length a" using assms l6 by simp
  have "?a' ! i = (if i < 6 \<and> \<bar>a ! i\<bar> < deadzone ! i then 0 else a ! i)" if "i < length a" for i
  proof (cases "i < 6")
    case True
    then have "?a' ! i = (if is_dead (deadzone ! i) (a ! i) then 0 else a ! i)"
      using assms l6 by (simp add: nth_append)
    then show ?thesis using True by (simp add: is_dead_abs)
  next
    case False
    then show ?thesis using assms l6 that by (simp add: nth_append)
  qed
  with e len show ?thesis by blast
qed

lemma hold_counts_append: "hold_counts (xs @ ys) = hold_counts xs @ hold_counts ys"
  by (induction xs rule: hold_counts.induct) simp_all

lemma checks_append: "checks (xs @ ys) = checks xs + checks ys"
  by (induction xs rule: checks.induct) simp_all

lemma acting_tick_deadzone:
  assumes "acting_tick t"
  shows "\<exists>a a'. input2action t = Returns (Some a) \<and> apply_deadzone a = Inr a' \<and>
     render t = Returns ()"
proof -
  from assms obtain a where a: "input2action t = Returns (Some a)" "6 \<le> length a"
      "render t = Returns ()"
    by (auto simp: acting_tick_def split: call.splits option.splits)
  from a(2) have "\<exists>a'. apply_deadzone a = Inr a'" by (simp add: apply_deadzone_def)
  with a show ?thesis by blast
qed

lemma iteration_checked:
  assumes "acting_tick t" and "check_success t = Returns s" and "current_timestamps t < max_steps"
    and "c \<noteq> 0"
  shows "\<exists>a'. iteration c t = (Inr (latch c s), [SetAction a', EnvRender, CheckSuccess, HoldCount (latch c s)])"
  using acting_tick_deadzone[OF assms(1)] assms(2-4)
  by (auto simp: iteration_def Let_def)


lemma control_loop_checked:
  assumes "acting_tick t" and "check_success t = Returns s" and "current_timestamps t < max_steps"
    and "c \<noteq> 0"
  shows "\<exists>evs. control_loop c (t # ts) =
           (fst (control_loop (latch c s) ts), evs @ snd (control_loop (latch c s) ts)) \<and>
           hold_counts evs = [latch c s] \<and> checks evs = 1"
proof -
  from iteration_checked[OF assms] obtain a' where
    "iteration c t = (Inr (latch c s), [SetAction a', EnvRender, CheckSuccess, HoldCount (latch c s)])"
    by blast
  then show ?thesis by (simp add: case_prod_beta)
qed

lemma control_loop_holding:
  assumes "\<forall>t\<in>set ts. success_tick t" and "0 < c" and "int (length ts) \<le> c"
  shows "\<exists>evs. control_loop c (ts @ rest) =
           (fst (control_loop (c - int (length ts)) rest),
            evs @ snd (control_loop (c - int (length ts)) rest)) \<and>
           hold_counts evs = map (\<lambda>i. c - 1 - int i) [0..<length ts] \<and>
           checks evs = length ts"
  using assms
proof (induction ts arbitrary: c)
  case Nil
  show ?case by (rule exI[of _ "[]"]) simp
next
  case (Cons t ts)
  have t: "acting_tick t" "check_success t = Returns True" "current_timestamps t < max_steps"
    using Cons.prems(1) by (simp_all add: success_tick_def)
  have l: "latch c True = c - 1" using Cons.prems(2) by (simp add: latch_def)
  from control_loop_checked[OF t, of c "ts @ rest"] Cons.prems(2) l obtain e1 where
    e1: "control_loop c (t # ts @ rest) =
           (fst (control_loop (c - 1) (ts @ rest)), e1 @ snd (control_loop (c - 1) (ts @ rest)))"
        "hold_counts e1 = [c - 1]" "checks e1 = 1"
    by auto
  show ?case
  proof (cases ts)
    case Nil
    have "control_loop c ((t # ts) @ rest) =
           (fst (control_loop (c - int (length (t # ts))) rest),
            e1 @ snd (control_loop (c - int (length (t # ts))) rest)) \<and>
          hold_counts e1 = map (\<lambda>i. c - 1 - int i) [0..<length (t # ts)] \<and>
          checks e1 = length (t # ts)"
      using e1 Nil by (simp del: control_loop.simps)
    then show ?thesis by (rule exI)
  next
    case (Cons u us)
    then have "0 < c - 1" "int (length ts) \<le> c - 1" using Cons.prems(3) by auto
    from Cons.IH[OF _ this] Cons.prems(1) obtain e2 where
      e2: "control_loop (c - 1) (ts @ rest) =
             (fst (control_loop (c - 1 - int (length ts)) rest),
              e2 @ snd (control_loop (c - 1 - int (length ts)) rest))"
          "hold_counts e2 = map (\<lambda>i. c - 1 - 1 - int i) [0..<length ts]" "checks e2 = length ts"
      by auto
    have m: "map (\<lambda>i. c - 1 - int i) [0..<length (t # ts)] =
        (c - 1) # map (\<lambda>i. c - 1 - 1 - int i) [0..<length ts]"
      by (simp add: map_upt_Suc del: upt_Suc)
    have d: "c - int (length (t # ts)) = c - 1 - int (length ts)" by simp
    have "control_loop c ((t # ts) @ rest) =
           (fst (control_loop (c - int (length (t # ts))) rest),
            (e1 @ e2) @ snd (control_loop (c - int (length (t # ts))) rest)) \<and>
          hold_counts (e1 @ e2) = map (\<lambda>i. c - 1 - int i) [0..<length (t # ts)] \<and>
          checks (e1 @ e2) = length (t # ts)"
      unfolding d m by (simp add: e1 e2 hold_counts_append checks_append del: control_loop.simps)
    then show ?thesis by (rule exI)
  qed
qed

lemma map_ten: "map (\<lambda>i. 10 - 1 - int i) [0..<9] = [9, 8, 7, 6, 5, 4, 3, 2, 1]"
  by (simp add: upt_rec)

lemma ten_successes:
  assumes "length ts = 10" and "\<forall>t\<in>set ts. success_tick t"
  shows "\<exists>evs. control_loop (- 1) (ts @ rest) =
           (fst (control_loop 1 rest), evs @ snd (control_loop 1 rest)) \<and>
           hold_counts evs = [10, 9, 8, 7, 6, 5, 4, 3, 2, 1] \<and> checks evs = 10"
proof -
  from assms(1) obtain t1 us where ts: "ts = t1 # us" and us: "length us = 9"
    by (cases ts) auto
  have t1: "acting_tick t1" "check_success t1 = Returns True" "current_timestamps t1 < max_steps"
    using assms(2) ts by (simp_all add: success_tick_def)
  from control_loop_checked[OF t1, of "- 1" "us @ rest"] obtain e1 where
    e1: "control_loop (- 1) (t1 # us @ rest) =
           (fst (control_loop 10 (us @ rest)), e1 @ snd (control_loop 10 (us @ rest)))"
        "hold_counts e1 = [10]" "checks e1 = 1"
    by (auto simp: latch_def)
  from control_loop_holding[of us 10 rest] assms(2) ts us obtain e2 where
    e2: "control_loop 10 (us @ rest) =
           (fst (control_loop 1 rest), e2 @ snd (control_loop 1 rest))"
        "hold_counts e2 = map (\<lambda>i. 10 - 1 - int i) [0..<9]" "checks e2 = 9"
    by auto
  have "control_loop (- 1) (ts @ rest) =
           (fst (control_loop 1 rest), (e1 @ e2) @ snd (control_loop 1 rest)) \<and>
         hold_counts (e1 @ e2) = [10, 9, 8, 7, 6, 5, 4, 3, 2, 1] \<and> checks (e1 @ e2) = 10"
    using e1 e2 map_ten
    by (simp add: ts hold_counts_append checks_append del: control_loop.simps)
  then show ?thesis by (rule exI)
qed

lemma iteration_no_cleanup:
  "StopEventSet \<notin> set (snd (iteration c t)) \<and> ThreadJoin \<notin> set (snd (iteration c t)) \<and>
   EnvClose \<notin> set (snd (iteration c t))"
  by (auto simp: iteration_def Let_def split: call.splits option.splits sum.splits)

lemma control_loop_no_cleanup:
  "StopEventSet \<notin> set (snd (control_loop c ts)) \<and> ThreadJoin \<notin> set (snd (control_loop c ts)) \<and>
   EnvClose \<notin> set (snd (control_loop c ts))"
proof (induction ts arbitrary: c)
  case Nil
  show ?case by simp
next
  case (Cons t ts)
  obtain r evs where i: "iteration c t = (r, evs)" by (cases "iteration c t")
  show ?case
  proof (cases r)
    case (Inl x)
    then show ?thesis using i iteration_no_cleanup[of c t] by simp
  next
    case (Inr c')
    then show ?thesis
      using i iteration_no_cleanup[of c t] Cons.IH[of c']
      by (simp add: case_prod_beta)
  qed
qed

text \<open>Unfolding the foreground loop and the example ticks, to evaluate a concrete run.\<close>

lemmas controller_defs = collect_human_trajectory_def iteration_def apply_deadzone_def
  deadzone_def is_dead_def latch_def max_steps_def freq_def acting_tick_def success_tick_def
  failure_tick_def Let_def

lemmas tick_defs = example_action_def succeeding_def failing_def ten_successes_def
  ten_successes_then_failure_def interrupted_def resetting_def

section \<open>Facts about the two threads\<close>

lemma lock_inv_stepper: "lock_inv c \<Longrightarrow> lock_inv (stepper_move c)"
  by (cases "spc c")
     (auto simp: lock_inv_def stepper_move_def note_access_def access_discipline_def
           split: option.splits if_splits)

lemma lock_inv_controller: "lock_inv c \<Longrightarrow> lock_inv (controller_move dev fin c)"
  by (cases "cpc c")
     (auto simp: lock_inv_def controller_move_def note_access_def access_discipline_def
           split: option.splits if_splits call.splits sum.splits bool.splits)

lemma prov_inv_stepper: "prov_inv c \<Longrightarrow> prov_inv (stepper_move c)"
  by (cases "spc c")
     (auto simp: prov_inv_def stepper_move_def note_access_def split: option.splits if_splits)

lemma prov_inv_controller: "prov_inv c \<Longrightarrow> prov_inv (controller_move dev fin c)"
  by (cases "cpc c")
     (auto simp: prov_inv_def controller_move_def note_access_def
           split: option.splits if_splits call.splits sum.splits bool.splits)

lemma count_inv_stepper: "count_inv c \<Longrightarrow> count_inv (stepper_move c)"
  by (cases "spc c")
     (auto simp: count_inv_def counter_reset_def stepper_move_def note_access_def
           split: option.splits if_splits spc.splits)

lemma count_inv_controller: "count_inv c \<Longrightarrow> count_inv (controller_move dev fin c)"
  by (cases "cpc c")
     (auto simp: count_inv_def counter_reset_def controller_move_def note_access_def
           split: option.splits if_splits call.splits sum.splits bool.splits spc.splits)

lemma done_inv_stepper: "done_inv c \<Longrightarrow> done_inv (stepper_move c)"
  by (cases "spc c")
     (auto simp: done_inv_def stepper_move_def note_access_def split: option.splits if_splits)

lemma done_inv_controller: "done_inv c \<Longrightarrow> done_inv (controller_move dev fin c)"
  by (cases "cpc c")
     (auto simp: done_inv_def controller_move_def note_access_def
           split: option.splits if_splits call.splits sum.splits bool.splits)

lemma all_inv_move: "all_inv c \<Longrightarrow> all_inv (make_move c m)"
  by (cases m)
     (simp_all add: all_inv_def lock_inv_stepper lock_inv_controller prov_inv_stepper
        prov_inv_controller count_inv_stepper count_inv_controller done_inv_stepper
        done_inv_controller)

lemma all_inv_initial: "all_inv initial_config"
  by (simp add: all_inv_def lock_inv_def prov_inv_def count_inv_def done_inv_def
      initial_config_def)

lemma all_inv_foldl: "all_inv c \<Longrightarrow> all_inv (foldl make_move c ms)"
  by (induction ms arbitrary: c) (simp_all add: all_inv_move)

lemma all_inv_run: "all_inv (run schedule)"
  by (simp add: run_def all_inv_foldl all_inv_initial)

text \<open>Once the stepper thread has ended, no move applies a simulation step.\<close>

lemma done_stays:
  "spc c = S_done \<Longrightarrow>
   spc (foldl make_move c ms) = S_done \<and> stepped (foldl make_move c ms) = stepped c"
proof (induction ms arbitrary: c)
  case Nil
  then show ?case by simp
next
  case (Cons m ms)
  have "spc (make_move c m) = S_done \<and> stepped (make_move c m) = stepped c"
  proof (cases m)
    case StepperMove
    then show ?thesis using Cons.prems by (simp add: stepper_move_def)
  next
    case (ControllerMove dev fin)
    then show ?thesis using Cons.prems
      by (cases "cpc c")
         (auto simp: controller_move_def note_access_def
               split: option.splits if_splits call.splits sum.splits bool.splits)
  qed
  with Cons.IH[of "make_move c m"] show ?case by simp
qed

lemma run_append: "run (schedule @ later) = foldl make_move (run schedule) later"
  by (simp add: run_def)

lemmas thread_defs = run_def stepper_move_def controller_move_def note_access_def
  initial_config_def apply_deadzone_def deadzone_def is_dead_def max_steps_def freq_def
  access_discipline_def counter_reset_def

lemmas schedule_defs = example_action_def controller_goes_def unlocked_read_schedule_def
  one_step_schedule_def reset_schedule_def

section \<open>Deadzone clamping\<close>

text \<open>
  C9. When the device gives an action (of at least the 6 components the clamping reads),
  the first thing the iteration does is to push an action \<open>a'\<close> to the shared slot, and
  \<open>a'\<close> is the given action after clamping: among the first 6 components, each one whose
  absolute value is below its threshold in the vector of line 77 is 0, and every other
  component, among the first 6 or after them, is as the device gave it. The thresholds of
  the first three components are 0, so these three are never changed.
\<close>

theorem deadzone_applied_before_push:
  assumes "input2action t = Returns (Some a)" and "6 \<le> length a"
  shows "\<exists>a' evs. snd (iteration c t) = SetAction a' # evs \<and> length a' = length a \<and>
           (\<forall>i<length a. a' ! i = (if i < 6 \<and> \<bar>a ! i\<bar> < deadzone ! i then 0 else a ! i)) \<and>
           (\<forall>i<3. a' ! i = a ! i)"
proof -
  from apply_deadzone_long[OF assms(2)] obtain a' where
    a': "apply_deadzone a = Inr a'" "length a' = length a"
      "\<forall>i<length a. a' ! i = (if i < 6 \<and> \<bar>a ! i\<bar> < deadzone ! i then 0 else a ! i)"
    by blast
  have "\<exists>evs. snd (iteration c t) = SetAction a' # evs"
    using assms(1) a'(1) by (simp add: iteration_def Let_def split: call.splits)
  moreover have "\<forall>i<3. a' ! i = a ! i"
  proof (intro allI impI)
    fix i :: nat assume "i < 3"
    then have "i < length a" "deadzone ! i = 0" using assms(2)
      by (auto simp: deadzone_def less_Suc_eq numeral_3_eq_3)
    with a'(3) show "a' ! i = a ! i" by simp
  qed
  ultimately show ?thesis using a'(2,3) by blast
qed

theorem deadzone_applied_before_push_witness:
  "input2action succeeding = Returns (Some [0.5, 0, 0, 0.05, - 0.05, 0.1, 1]) \<and>
   snd (iteration (- 1) succeeding) =
     [SetAction [0.5, 0, 0, 0, 0, 0.1, 1], EnvRender, CheckSuccess, HoldCount 10]"
  using deadzone_applied_before_push [of succeeding example_action "- 1"]
  by (simp add: controller_defs tick_defs)

section \<open>The success latch\<close>




section \<open>Cleanup on the ways out of the loop\<close>

text \<open>
  C5, as claimed: on every way out, the interrupt included, the controller stops the
  stepper, joins it and then releases the simulation. The handler of the interrupt (lines
  132 to 135) stops and joins the stepper and raises again: \<^verbatim>\<open>env.close()\<close> is not reached.
\<close>

theorem interrupt_path_does_not_close:
  "collect_human_trajectory [interrupted] =
     (Interrupted,
      [EnvReset, EnvRender, ThreadStart, StartControl,
       SetAction [0.5, 0, 0, 0, 0, 0.1, 1], EnvRender, StopEventSet, ThreadJoin])"
  by (simp add: controller_defs tick_defs)

text \<open>
  C5, amended: when the loop is left by a \<^verbatim>\<open>break\<close> (reset by the operator, success,
  timeout), the controller sets the stop event, joins the stepper thread and closes the
  environment, in this order, once each and as the last things it does. When the loop is
  left by \<^verbatim>\<open>KeyboardInterrupt\<close>, the controller sets the stop event and joins the stepper
  thread, once each and as the last things it does before the interrupt is raised again,
  and does not close the environment. In every interleaving of the two threads, when the
  controller is past the join (about to close, returned, or raising again), the stepper
  thread has ended, and whatever moves follow, no simulation step is applied any more.
\<close>

theorem cleanup_order:
  "(fst (collect_human_trajectory ticks) \<in> {BreakReset, BreakSuccess, BreakTimeout} \<longrightarrow>
      (\<exists>evs. snd (collect_human_trajectory ticks) = evs @ [StopEventSet, ThreadJoin, EnvClose] \<and>
         StopEventSet \<notin> set evs \<and> ThreadJoin \<notin> set evs \<and> EnvClose \<notin> set evs)) \<and>
   (fst (collect_human_trajectory ticks) = Interrupted \<longrightarrow>
      (\<exists>evs. snd (collect_human_trajectory ticks) = evs @ [StopEventSet, ThreadJoin] \<and>
         StopEventSet \<notin> set evs \<and> ThreadJoin \<notin> set evs \<and> EnvClose \<notin> set evs)) \<and>
   (cpc (run schedule) \<in> {C_close, C_returned, C_raised} \<longrightarrow>
      spc (run schedule) = S_done \<and>
      stepped (run (schedule @ later)) = stepped (run schedule))"
proof (intro conjI)
  obtain x evs where r: "control_loop (- 1) ticks = (x, evs)"
    by (cases "control_loop (- 1) ticks")
  from control_loop_no_cleanup[of "- 1" ticks] r
  have n: "StopEventSet \<notin> set evs" "ThreadJoin \<notin> set evs" "EnvClose \<notin> set evs" by simp_all
  have c: "collect_human_trajectory ticks =
      (x, ([EnvReset, EnvRender, ThreadStart, StartControl] @ evs) @ after_loop x)"
    using r by (simp add: collect_human_trajectory_def)
  show "fst (collect_human_trajectory ticks) \<in> {BreakReset, BreakSuccess, BreakTimeout} \<longrightarrow>
      (\<exists>evs. snd (collect_human_trajectory ticks) = evs @ [StopEventSet, ThreadJoin, EnvClose] \<and>
         StopEventSet \<notin> set evs \<and> ThreadJoin \<notin> set evs \<and> EnvClose \<notin> set evs)"
    unfolding c using n by (cases x) auto
  show "fst (collect_human_trajectory ticks) = Interrupted \<longrightarrow>
      (\<exists>evs. snd (collect_human_trajectory ticks) = evs @ [StopEventSet, ThreadJoin] \<and>
         StopEventSet \<notin> set evs \<and> ThreadJoin \<notin> set evs \<and> EnvClose \<notin> set evs)"
    unfolding c using n by (cases x) auto
  show "cpc (run schedule) \<in> {C_close, C_returned, C_raised} \<longrightarrow>
      spc (run schedule) = S_done \<and>
      stepped (run (schedule @ later)) = stepped (run schedule)"
  proof
    assume "cpc (run schedule) \<in> {C_close, C_returned, C_raised}"
    with all_inv_run[of schedule] have d: "spc (run schedule) = S_done"
      by (auto simp: all_inv_def done_inv_def)
    from done_stays[OF d, of later] d
    show "spc (run schedule) = S_done \<and>
        stepped (run (schedule @ later)) = stepped (run schedule)"
      by (simp add: run_append)
  qed
qed

theorem cleanup_order_witness:
  "collect_human_trajectory [succeeding, resetting] =
     (BreakReset,
      [EnvReset, EnvRender, ThreadStart, StartControl,
       SetAction [0.5, 0, 0, 0, 0, 0.1, 1], EnvRender, CheckSuccess, HoldCount 10,
       StopEventSet, ThreadJoin, EnvClose]) \<and>
   fst (collect_human_trajectory [succeeding, interrupted]) = Interrupted \<and>
   cpc (run reset_schedule) = C_close \<and> spc (run reset_schedule) = S_done \<and>
   stepped (run (reset_schedule @ [StepperMove, controller_goes, StepperMove])) = []"
  using cleanup_order [of "[succeeding, resetting]" reset_schedule
      "[StepperMove, controller_goes, StepperMove]"]
    cleanup_order [of "[succeeding, interrupted]" reset_schedule "[]"]
  by (simp add: controller_defs tick_defs thread_defs schedule_defs)

section \<open>The lock\<close>

text \<open>
  C4, as claimed: no read or write of the tick counter is made outside the lock. The test
  of line 129 reads the counter, and line 130 writes it, with no lock taken. In the
  schedule below the controller writes an action, the stepper takes the lock, and the
  controller reads the counter while the stepper holds the lock.
\<close>

theorem controller_reads_counter_unlocked:
  "log (run unlocked_read_schedule) =
     [(Controller, WriteAction, True), (Controller, ReadCounter, False)] \<and>
   lock (run unlocked_read_schedule) = Some Stepper \<and>
   cpc (run unlocked_read_schedule) = C_input \<and> spc (run unlocked_read_schedule) = S_check"
  by (simp add: thread_defs schedule_defs)

text \<open>
  C4, amended: in every interleaving of the controller and the stepper, every access to the
  shared action and every access of the stepper to the tick counter is made by a thread
  that holds the lock, while the accesses of the controller to the tick counter (lines 129
  and 130) are made without it; the two threads are never both inside their
  \<^verbatim>\<open>with self.lock\<close> blocks; every action the simulation is stepped with is one that
  \<^verbatim>\<open>set_action\<close> wrote; and until the controller resets the counter at line 130, the counter
  is the number of simulation steps applied, less the one step whose increment is under
  way, so that no tick is counted twice or left out.
\<close>

theorem lock_discipline:
  "list_all access_discipline (log (run schedule)) \<and>
   \<not> (in_stepper_block (spc (run schedule)) \<and> in_controller_block (cpc (run schedule))) \<and>
   set (stepped (run schedule)) \<subseteq> set (pushed (run schedule)) \<and>
   (\<not> counter_reset (run schedule) \<longrightarrow>
      g_current_timestamps (run schedule) + pending (spc (run schedule)) =
        length (stepped (run schedule)))"
  using all_inv_run[of schedule]
  by (auto simp: all_inv_def lock_inv_def prov_inv_def count_inv_def)

theorem lock_discipline_witness:
  "log (run one_step_schedule) =
     [(Controller, WriteAction, True), (Stepper, ReadAction, True), (Stepper, ReadAction, True),
      (Stepper, ReadCounter, True), (Stepper, WriteCounter, True)] \<and>
   stepped (run one_step_schedule) = [[0.5, 0, 0, 0, 0, 0.1, 1]] \<and>
   pushed (run one_step_schedule) = [[0.5, 0, 0, 0, 0, 0.1, 1]] \<and>
   \<not> counter_reset (run one_step_schedule) \<and>
   g_current_timestamps (run one_step_schedule) = 1 \<and>
   spc (run one_step_schedule) = S_sleep"
  using lock_discipline [of one_step_schedule]
  by (simp add: thread_defs schedule_defs)

end
